theory Spec2Isabelle
  imports Complex_Main "HOL-Library.Word"
begin

section \<open>Capacitance measurement of the cable tester (capacitance.h)\<close>

text \<open>
  The firmware measures the shunt capacitance of a cable by timing an RC charge.
  The embedding follows \<^verbatim>\<open>src/arduino/cable_tester/capacitance.h\<close> function by function.

  \<^item> \<^verbatim>\<open>unsigned long\<close> is a 32-bit word: addition and subtraction wrap.
  \<^item> \<^verbatim>\<open>float\<close> is modelled by the type \<open>real\<close>: every operation is exact, rounding
    is not modelled. Statements about \<open>capacitance_pf\<close> are statements about the exact
    value of the expression that the source evaluates in floating point.
  \<^item> The hardware is a record \<open>world\<close>: the direction and the last written level of every
    pin, the two input sources (the value of the n-th call of \<^verbatim>\<open>micros()\<close>, the value of
    the n-th call of \<^verbatim>\<open>analogRead\<close>), how many of each were consumed, and the log of
    every hardware and serial operation in the order of execution.
  \<^item> The polling loop of \<open>measureChargeTime\<close> has no bound of its own on an arbitrary
    clock, so the functions built on it return an \<open>option\<close>: \<open>None\<close> is a run that
    never returns.
\<close>

subsection \<open>Types and constants\<close>

type_synonym u32 = "32 word"

datatype pin_mode = INPUT | OUTPUT

datatype level = LOW | HIGH

datatype event =
    PinMode int pin_mode
  | DigitalWrite int level
  | Delay nat
  | Micros u32
  | AnalogRead int int
  | ResetCircuit
  | Print string
  | PrintFloat real nat
  | PrintULong u32
  | PrintInt int
  | Println string
  | PrintlnInt int

record world =
  modes :: "int \<Rightarrow> pin_mode"
  levels :: "int \<Rightarrow> level"
  clock :: "nat \<Rightarrow> u32"
  adc :: "nat \<Rightarrow> int"
  micros_calls :: nat
  adc_calls :: nat
  log :: "event list"

text \<open>
  The names that the header only declares (\<^verbatim>\<open>extern\<close>) or takes from the Arduino core
  (\<^verbatim>\<open>A1\<close>) are parameters: the four pin numbers, the analog pin, and the effect of
  \<^verbatim>\<open>resetCircuit()\<close> on the direction and level of the pins.
\<close>

record externs =
  A1 :: int
  K1_K2_RELAY_PIN :: int
  K4_RELAY_PIN :: int
  TS_CONT_OUT_SLEEVE_PIN :: int
  TS_CONT_OUT_TIP_PIN :: int
  resetCircuit_body :: "(int \<Rightarrow> pin_mode) \<times> (int \<Rightarrow> level) \<Rightarrow> (int \<Rightarrow> pin_mode) \<times> (int \<Rightarrow> level)"

definition CAP_CHARGE_PIN :: int where "CAP_CHARGE_PIN = 7"
definition CAP_DISCHARGE_PIN :: int where "CAP_DISCHARGE_PIN = 8"
definition CAP_SENSE_PIN :: "externs \<Rightarrow> int" where "CAP_SENSE_PIN x = A1 x"

definition CAP_CHARGE_RESISTOR :: real where "CAP_CHARGE_RESISTOR = 2200000"
definition CAP_ADC_THRESHOLD :: int where "CAP_ADC_THRESHOLD = 512"
definition CAP_TIMEOUT_US :: u32 where "CAP_TIMEOUT_US = 100000"
definition CAP_DISCHARGE_TIME_MS :: nat where "CAP_DISCHARGE_TIME_MS = 10"
definition CAP_NUM_SAMPLES :: int where "CAP_NUM_SAMPLES = 5"
definition CAP_STRAY_PF :: real where "CAP_STRAY_PF = 20"

record CapacitanceResult =
  valid :: bool
  capacitance_pf :: real
  charge_time_us :: u32
  num_samples :: int

subsection \<open>The Arduino primitives\<close>

definition pinMode :: "int \<Rightarrow> pin_mode \<Rightarrow> world \<Rightarrow> world" where
  "pinMode p m w = w\<lparr>modes := (modes w)(p := m), log := log w @ [PinMode p m]\<rparr>"

definition digitalWrite :: "int \<Rightarrow> level \<Rightarrow> world \<Rightarrow> world" where
  "digitalWrite p v w = w\<lparr>levels := (levels w)(p := v), log := log w @ [DigitalWrite p v]\<rparr>"

definition delay :: "nat \<Rightarrow> world \<Rightarrow> world" where
  "delay ms w = w\<lparr>log := log w @ [Delay ms]\<rparr>"

definition micros :: "world \<Rightarrow> u32 \<times> world" where
  "micros w =
     (clock w (micros_calls w),
      w\<lparr>micros_calls := Suc (micros_calls w),
        log := log w @ [Micros (clock w (micros_calls w))]\<rparr>)"

definition analogRead :: "int \<Rightarrow> world \<Rightarrow> int \<times> world" where
  "analogRead p w =
     (adc w (adc_calls w),
      w\<lparr>adc_calls := Suc (adc_calls w),
        log := log w @ [AnalogRead p (adc w (adc_calls w))]\<rparr>)"

definition resetCircuit :: "externs \<Rightarrow> world \<Rightarrow> world" where
  "resetCircuit x w =
     (case resetCircuit_body x (modes w, levels w) of
        (m, l) \<Rightarrow> w\<lparr>modes := m, levels := l, log := log w @ [ResetCircuit]\<rparr>)"

definition serial_print :: "string \<Rightarrow> world \<Rightarrow> world" where
  "serial_print s w = w\<lparr>log := log w @ [Print s]\<rparr>"

definition serial_print_float :: "real \<Rightarrow> nat \<Rightarrow> world \<Rightarrow> world" where
  "serial_print_float v digits w = w\<lparr>log := log w @ [PrintFloat v digits]\<rparr>"

definition serial_print_ulong :: "u32 \<Rightarrow> world \<Rightarrow> world" where
  "serial_print_ulong v w = w\<lparr>log := log w @ [PrintULong v]\<rparr>"

definition serial_println :: "string \<Rightarrow> world \<Rightarrow> world" where
  "serial_println s w = w\<lparr>log := log w @ [Println s]\<rparr>"

definition serial_println_int :: "int \<Rightarrow> world \<Rightarrow> world" where
  "serial_println_int v w = w\<lparr>log := log w @ [PrintlnInt v]\<rparr>"

subsection \<open>setupCapacitancePins, dischargeCable\<close>

definition setupCapacitancePins :: "world \<Rightarrow> world" where
  "setupCapacitancePins w =
     digitalWrite CAP_DISCHARGE_PIN LOW
       (digitalWrite CAP_CHARGE_PIN LOW
         (pinMode CAP_DISCHARGE_PIN OUTPUT
           (pinMode CAP_CHARGE_PIN OUTPUT w)))"

definition dischargeCable :: "world \<Rightarrow> world" where
  "dischargeCable w =
     delay CAP_DISCHARGE_TIME_MS
       (digitalWrite CAP_DISCHARGE_PIN LOW
         (digitalWrite CAP_CHARGE_PIN LOW w))"

subsection \<open>calculateCapacitance\<close>

definition calculateCapacitance :: "u32 \<Rightarrow> real" where
  "calculateCapacitance chargeTimeUs =
     (if chargeTimeUs = 0 then 0
      else
        let timeSeconds = real (unat chargeTimeUs) / 1000000;
            capacitanceFarads = timeSeconds / (CAP_CHARGE_RESISTOR * (693 / 1000));
            capacitancePf = capacitanceFarads * 1000000000000;
            capacitancePf = capacitancePf - CAP_STRAY_PF
        in if capacitancePf < 0 then 0 else capacitancePf)"

text \<open>The value before the stray capacitance is subtracted, as the spec writes it.\<close>

definition raw_capacitance_pf :: "u32 \<Rightarrow> real" where
  "raw_capacitance_pf t = real (unat t) / 1000000 / (2200000 * (693 / 1000)) * 1000000000000"

text \<open>
  The same function with the floating-point arithmetic of the target left open: \<open>conv\<close> is
  the conversion of an \<^verbatim>\<open>unsigned long\<close> to floating point, \<open>rnd\<close> the rounding of the
  value that each of the four statements stores, and the four constants are the values the
  target has for \<^verbatim>\<open>1000000.0\<close>, \<^verbatim>\<open>CAP_CHARGE_RESISTOR * 0.693\<close>, \<^verbatim>\<open>1e12\<close> and
  \<^verbatim>\<open>CAP_STRAY_PF\<close>. A target is monotone when conversion and rounding preserve \<open>\<le>\<close> and
  the divisors are positive, as rounding to nearest is. \<open>exact_target\<close> rounds nothing and
  gives \<open>calculateCapacitance\<close> back.
\<close>

record fp_target =
  conv :: "nat \<Rightarrow> real"
  rnd :: "real \<Rightarrow> real"
  c_million :: real
  c_rc :: real
  c_tera :: real
  c_stray :: real

definition calculateCapacitance_rounded :: "fp_target \<Rightarrow> u32 \<Rightarrow> real" where
  "calculateCapacitance_rounded f chargeTimeUs =
     (if chargeTimeUs = 0 then 0
      else
        let timeSeconds = rnd f (conv f (unat chargeTimeUs) / c_million f);
            capacitanceFarads = rnd f (timeSeconds / c_rc f);
            capacitancePf = rnd f (capacitanceFarads * c_tera f);
            capacitancePf = rnd f (capacitancePf - c_stray f)
        in if capacitancePf < 0 then 0 else capacitancePf)"

definition monotone_target :: "fp_target \<Rightarrow> bool" where
  "monotone_target f =
     ((\<forall>m n. m \<le> n \<longrightarrow> conv f m \<le> conv f n) \<and>
      (\<forall>a b. a \<le> b \<longrightarrow> rnd f a \<le> rnd f b) \<and>
      0 < c_million f \<and> 0 < c_rc f \<and> 0 \<le> c_tera f)"

definition exact_target :: fp_target where
  "exact_target =
     \<lparr>conv = real, rnd = (\<lambda>r. r), c_million = 1000000,
      c_rc = CAP_CHARGE_RESISTOR * (693 / 1000), c_tera = 1000000000000,
      c_stray = CAP_STRAY_PF\<rparr>"

subsection \<open>measureChargeTime\<close>

text \<open>
  The \<^verbatim>\<open>while\<close> loop either returns from inside its body (threshold reached) or ends
  because its condition fails; the code after the loop runs only in the second case.
\<close>

datatype 'a loop_exit = Returned 'a | Fell_through

partial_function (option) poll_loop ::
  "externs \<Rightarrow> u32 \<Rightarrow> u32 \<Rightarrow> world \<Rightarrow> (u32 loop_exit \<times> world) option" where
  "poll_loop x startTime timeout w =
     (case micros w of (now, w1) \<Rightarrow>
        if now < timeout then
          (case analogRead (CAP_SENSE_PIN x) w1 of (adcValue, w2) \<Rightarrow>
             if adcValue \<ge> CAP_ADC_THRESHOLD then
               (case micros w2 of (now2, w3) \<Rightarrow>
                  let chargeTime = now2 - startTime;
                      w4 = digitalWrite CAP_CHARGE_PIN LOW w3;
                      w5 = pinMode CAP_DISCHARGE_PIN OUTPUT w4;
                      w6 = digitalWrite CAP_DISCHARGE_PIN LOW w5
                  in Some (Returned chargeTime, w6))
             else poll_loop x startTime timeout w2)
        else Some (Fell_through, w1))"

definition measureChargeTime :: "externs \<Rightarrow> world \<Rightarrow> (u32 \<times> world) option" where
  "measureChargeTime x w =
     (let w1 = dischargeCable w;
          w2 = pinMode CAP_DISCHARGE_PIN INPUT w1
      in case micros w2 of (startTime, w3) \<Rightarrow>
        let w4 = digitalWrite CAP_CHARGE_PIN HIGH w3;
            timeout = startTime + CAP_TIMEOUT_US
        in (case poll_loop x startTime timeout w4 of
              None \<Rightarrow> None
            | Some (Returned chargeTime, w5) \<Rightarrow> Some (chargeTime, w5)
            | Some (Fell_through, w5) \<Rightarrow>
                Some (0, digitalWrite CAP_DISCHARGE_PIN LOW
                           (pinMode CAP_DISCHARGE_PIN OUTPUT
                             (digitalWrite CAP_CHARGE_PIN LOW w5)))))"

subsection \<open>measureCapacitance\<close>

text \<open>
  The \<^verbatim>\<open>for\<close> loop over \<open>i\<close>, with its two accumulators. \<open>validSamples\<close> is an
  \<^verbatim>\<open>int\<close> that never exceeds 5; \<open>totalTime\<close> is an \<^verbatim>\<open>unsigned long\<close> and wraps.
\<close>

function sample_loop ::
  "externs \<Rightarrow> int \<Rightarrow> u32 \<Rightarrow> int \<Rightarrow> world \<Rightarrow> (u32 \<times> int \<times> world) option" where
  "sample_loop x i totalTime validSamples w =
     (if i < CAP_NUM_SAMPLES then
        (case measureChargeTime x w of
           None \<Rightarrow> None
         | Some (chargeTime, w1) \<Rightarrow>
             if chargeTime > 0
             then sample_loop x (i + 1) (totalTime + chargeTime) (validSamples + 1) (delay 10 w1)
             else sample_loop x (i + 1) totalTime validSamples (delay 10 w1))
      else Some (totalTime, validSamples, w))"
  by pat_completeness auto
termination
  by (relation "measure (\<lambda>(x, i, t, v, w). nat (CAP_NUM_SAMPLES - i))") auto

declare sample_loop.simps [simp del]

definition measureCapacitance :: "externs \<Rightarrow> world \<Rightarrow> (CapacitanceResult \<times> world) option" where
  "measureCapacitance x w =
     (let result = \<lparr>valid = False, capacitance_pf = 0, charge_time_us = 0, num_samples = 0\<rparr>
      in case sample_loop x 0 0 0 w of
           None \<Rightarrow> None
         | Some (totalTime, validSamples, w1) \<Rightarrow>
             if validSamples > 0 then
               (let result = result\<lparr>valid := True\<rparr>;
                    result = result\<lparr>charge_time_us := totalTime div word_of_int validSamples\<rparr>;
                    result = result\<lparr>capacitance_pf := calculateCapacitance (charge_time_us result)\<rparr>;
                    result = result\<lparr>num_samples := validSamples\<rparr>
                in Some (result, w1))
             else Some (result, w1))"

subsection \<open>runCapacitanceTest, calibrateStrayCapacitance\<close>

text \<open>
  Both functions start with the same five statements (relays to capacitance mode, continuity
  pins floating, settle) and restore with the same five statements after the measurement.
  The two blocks are named here; the source writes them inline, twice.
\<close>

definition enter_cap_mode :: "externs \<Rightarrow> world \<Rightarrow> world" where
  "enter_cap_mode x w =
     delay 20
       (pinMode (TS_CONT_OUT_TIP_PIN x) INPUT
         (pinMode (TS_CONT_OUT_SLEEVE_PIN x) INPUT
           (digitalWrite (K4_RELAY_PIN x) LOW
             (digitalWrite (K1_K2_RELAY_PIN x) HIGH w))))"

definition restore_cont_pins :: "externs \<Rightarrow> world \<Rightarrow> world" where
  "restore_cont_pins x w =
     digitalWrite (TS_CONT_OUT_TIP_PIN x) LOW
       (pinMode (TS_CONT_OUT_TIP_PIN x) OUTPUT
         (digitalWrite (TS_CONT_OUT_SLEEVE_PIN x) LOW
           (pinMode (TS_CONT_OUT_SLEEVE_PIN x) OUTPUT w)))"

definition leave_cap_mode :: "externs \<Rightarrow> world \<Rightarrow> world" where
  "leave_cap_mode x w = resetCircuit x (restore_cont_pins x w)"

definition runCapacitanceTest :: "externs \<Rightarrow> world \<Rightarrow> (bool \<times> world) option" where
  "runCapacitanceTest x w =
     (case measureCapacitance x (enter_cap_mode x w) of
        None \<Rightarrow> None
      | Some (result, w1) \<Rightarrow>
          let w2 = leave_cap_mode x w1
          in if \<not> valid result
             then Some (False, serial_println ''CAP:FAIL:TIMEOUT:No charge detected'' w2)
             else
               let inRange = (capacitance_pf result \<ge> 50 \<and> capacitance_pf result \<le> 2000);
                   w3 = serial_print ''CAP:'' w2;
                   w4 = serial_print (if inRange then ''PASS'' else ''WARN'') w3;
                   w5 = serial_print '':PF:'' w4;
                   w6 = serial_print_float (capacitance_pf result) 1 w5;
                   w7 = serial_print '':TIME_US:'' w6;
                   w8 = serial_print_ulong (charge_time_us result) w7;
                   w9 = serial_print '':SAMPLES:'' w8;
                   w10 = serial_println_int (num_samples result) w9
               in Some (inRange, w10))"

definition calibrateStrayCapacitance :: "externs \<Rightarrow> world \<Rightarrow> world option" where
  "calibrateStrayCapacitance x w =
     (let w1 = serial_println ''CAP_CAL:Starting stray capacitance calibration'' w;
          w2 = serial_println ''CAP_CAL:Ensure NO cable is connected'' w1;
          w3 = delay 2000 w2
      in case measureCapacitance x (enter_cap_mode x w3) of
           None \<Rightarrow> None
         | Some (result, w4) \<Rightarrow>
             let w5 = leave_cap_mode x w4
             in if valid result then
                  (let rawPf = capacitance_pf result + CAP_STRAY_PF;
                       w6 = serial_print ''CAP_CAL:Measured stray capacitance: '' w5;
                       w7 = serial_print_float rawPf 1 w6;
                       w8 = serial_println '' pF'' w7;
                       w9 = serial_print ''CAP_CAL:Update CAP_STRAY_PF to '' w8;
                       w10 = serial_print_float rawPf 0 w9;
                       w11 = serial_println '' in capacitance.h'' w10
                   in Some w11)
                else Some (serial_println ''CAP_CAL:FAILED - Could not measure'' w5))"

section \<open>Vocabulary of the statements\<close>

subsection \<open>One charge cycle\<close>

text \<open>
  The three statements that end a charge cycle (written twice in \<open>measureChargeTime\<close>),
  and the statements before the polling loop.
\<close>

definition finish_charge :: "world \<Rightarrow> world" where
  "finish_charge w =
     digitalWrite CAP_DISCHARGE_PIN LOW
       (pinMode CAP_DISCHARGE_PIN OUTPUT
         (digitalWrite CAP_CHARGE_PIN LOW w))"

definition charge_start :: "world \<Rightarrow> world" where
  "charge_start w =
     digitalWrite CAP_CHARGE_PIN HIGH
       (snd (micros (pinMode CAP_DISCHARGE_PIN INPUT (dischargeCable w))))"

text \<open>The start timestamp of the cycle that begins in \<open>w\<close>, and its deadline.\<close>

definition start_time :: "world \<Rightarrow> u32" where
  "start_time w = clock w (micros_calls w)"

definition deadline :: "world \<Rightarrow> u32" where
  "deadline w = start_time w + CAP_TIMEOUT_US"

text \<open>The world after \<open>j\<close> iterations of the polling loop that neither return nor end it.\<close>

fun idle_polls :: "externs \<Rightarrow> nat \<Rightarrow> world \<Rightarrow> world" where
  "idle_polls x 0 w = w"
| "idle_polls x (Suc j) w = idle_polls x j (snd (analogRead (CAP_SENSE_PIN x) (snd (micros w))))"

text \<open>
  The loop that starts in \<open>w\<close> with deadline \<open>T\<close> leaves in its iteration \<open>j\<close> (counted
  from 0): the earlier iterations passed the loop test and read a value below the
  threshold, and iteration \<open>j\<close> fails the loop test or reads a value at the threshold.
\<close>

definition still_polling :: "u32 \<Rightarrow> world \<Rightarrow> nat \<Rightarrow> bool" where
  "still_polling T w j =
     (\<forall>i<j. clock w (micros_calls w + i) < T \<and> adc w (adc_calls w + i) < CAP_ADC_THRESHOLD)"

definition poll_exits_at :: "u32 \<Rightarrow> world \<Rightarrow> nat \<Rightarrow> bool" where
  "poll_exits_at T w j =
     (still_polling T w j \<and>
      (clock w (micros_calls w + j) < T \<longrightarrow> CAP_ADC_THRESHOLD \<le> adc w (adc_calls w + j)))"

definition poll_outcome :: "externs \<Rightarrow> u32 \<Rightarrow> u32 \<Rightarrow> world \<Rightarrow> nat \<Rightarrow> u32 loop_exit \<times> world" where
  "poll_outcome x s T w j =
     (let wj = idle_polls x j w in
      if clock wj (micros_calls wj) < T
      then (Returned (clock wj (Suc (micros_calls wj)) - s),
            finish_charge (snd (micros (snd (analogRead (CAP_SENSE_PIN x) (snd (micros wj)))))))
      else (Fell_through, snd (micros wj)))"

definition cycle_outcome :: "externs \<Rightarrow> world \<Rightarrow> nat \<Rightarrow> u32 \<times> world" where
  "cycle_outcome x w j =
     (case poll_outcome x (start_time w) (deadline w) (charge_start w) j of
        (Returned t, w5) \<Rightarrow> (t, w5)
      | (Fell_through, w5) \<Rightarrow> (0, finish_charge w5))"

text \<open>
  The cycle that starts in \<open>w\<close> leaves its polling loop in iteration \<open>j\<close>; it does so
  through the threshold test (\<open>crossed_at\<close>: the loop test of iteration \<open>j\<close> passed).
\<close>

definition cycle_exits_at :: "world \<Rightarrow> nat \<Rightarrow> bool" where
  "cycle_exits_at w j = poll_exits_at (deadline w) (charge_start w) j"

definition crossed_at :: "world \<Rightarrow> nat \<Rightarrow> bool" where
  "crossed_at w j = (clock w (Suc (micros_calls w) + j) < deadline w)"

definition is_read :: "event \<Rightarrow> bool" where
  "is_read e = (case e of Micros _ \<Rightarrow> True | AnalogRead _ _ \<Rightarrow> True | _ \<Rightarrow> False)"

definition is_serial :: "event \<Rightarrow> bool" where
  "is_serial e =
     (case e of
        Print _ \<Rightarrow> True | PrintFloat _ _ \<Rightarrow> True | PrintULong _ \<Rightarrow> True | PrintInt _ \<Rightarrow> True
      | Println _ \<Rightarrow> True | PrintlnInt _ \<Rightarrow> True | _ \<Rightarrow> False)"

subsection \<open>The averaging policy in the words of the spec\<close>

text \<open>
  \<open>run_cycles x n w\<close> repeats the cycle of \<open>measureChargeTime\<close> followed by the 10 ms pause
  \<open>n\<close> times and lists the charge times in order. \<open>averaged_result\<close> discards the samples
  with charge time 0, averages the others (in \<^verbatim>\<open>unsigned long\<close> arithmetic) and computes
  the capacitance once, from the average.
\<close>

fun run_cycles :: "externs \<Rightarrow> nat \<Rightarrow> world \<Rightarrow> (u32 list \<times> world) option" where
  "run_cycles x 0 w = Some ([], w)"
| "run_cycles x (Suc n) w =
     (case measureChargeTime x w of
        None \<Rightarrow> None
      | Some (t, w1) \<Rightarrow>
          (case run_cycles x n (delay 10 w1) of
             None \<Rightarrow> None
           | Some (ts, w2) \<Rightarrow> Some (t # ts, w2)))"

definition valid_times :: "u32 list \<Rightarrow> u32 list" where
  "valid_times ts = filter (\<lambda>t. t \<noteq> 0) ts"

definition averaged_result :: "u32 list \<Rightarrow> CapacitanceResult" where
  "averaged_result ts =
     (if valid_times ts = []
      then \<lparr>valid = False, capacitance_pf = 0, charge_time_us = 0, num_samples = 0\<rparr>
      else \<lparr>valid = True,
            capacitance_pf =
              calculateCapacitance (sum_list (valid_times ts) div of_nat (length (valid_times ts))),
            charge_time_us = sum_list (valid_times ts) div of_nat (length (valid_times ts)),
            num_samples = int (length (valid_times ts))\<rparr>)"

subsection \<open>The idle state of the pins\<close>

definition cap_pins_idle :: "externs \<Rightarrow> world \<Rightarrow> bool" where
  "cap_pins_idle x w =
     (levels w CAP_CHARGE_PIN = LOW \<and>
      modes w CAP_DISCHARGE_PIN = OUTPUT \<and> levels w CAP_DISCHARGE_PIN = LOW \<and>
      modes w (TS_CONT_OUT_SLEEVE_PIN x) = OUTPUT \<and> levels w (TS_CONT_OUT_SLEEVE_PIN x) = LOW \<and>
      modes w (TS_CONT_OUT_TIP_PIN x) = OUTPUT \<and> levels w (TS_CONT_OUT_TIP_PIN x) = LOW)"

subsection \<open>The serial report of runCapacitanceTest\<close>

definition report_events :: "CapacitanceResult \<Rightarrow> event list" where
  "report_events r =
     (if \<not> valid r then [Println ''CAP:FAIL:TIMEOUT:No charge detected'']
      else [Print ''CAP:'',
            Print (if capacitance_pf r \<ge> 50 \<and> capacitance_pf r \<le> 2000 then ''PASS'' else ''WARN''),
            Print '':PF:'', PrintFloat (capacitance_pf r) 1,
            Print '':TIME_US:'', PrintULong (charge_time_us r),
            Print '':SAMPLES:'', PrintlnInt (num_samples r)])"

subsection \<open>The opening of calibrateStrayCapacitance\<close>

text \<open>The two announcements and the 2 s pause before the relays are switched.\<close>

definition calibration_prologue :: "world \<Rightarrow> world" where
  "calibration_prologue w =
     delay 2000
       (serial_println ''CAP_CAL:Ensure NO cable is connected''
         (serial_println ''CAP_CAL:Starting stray capacitance calibration'' w))"

subsection \<open>Concrete fixtures\<close>

text \<open>
  A pin assignment, with a \<open>resetCircuit\<close> that switches both relays off, and a world whose
  clock readings and ADC values are given as lists (0 after the end of the list).
\<close>

definition bench :: externs where
  "bench =
     \<lparr>A1 = 15, K1_K2_RELAY_PIN = 2, K4_RELAY_PIN = 4,
      TS_CONT_OUT_SLEEVE_PIN = 5, TS_CONT_OUT_TIP_PIN = 6,
      resetCircuit_body = (\<lambda>(m, l). (m, l(2 := LOW, 4 := LOW)))\<rparr>"

definition scripted_world :: "u32 list \<Rightarrow> int list \<Rightarrow> world" where
  "scripted_world ts vs =
     \<lparr>modes = (\<lambda>_. INPUT), levels = (\<lambda>_. LOW),
      clock = (\<lambda>n. if n < length ts then ts ! n else 0),
      adc = (\<lambda>n. if n < length vs then vs ! n else 0),
      micros_calls = 0, adc_calls = 0, log = []\<rparr>"

text \<open>
  Five cycles: a crossing after 10 microseconds, a timeout, a crossing after 100
  microseconds, two timeouts.
\<close>

definition mixed_world :: world where
  "mixed_world =
     scripted_world
       [0, 4, 10, 20000, 120000, 200000, 200004, 200100, 300000, 400000, 500000, 600000]
       [600, 600]"

text \<open>Five cycles that cross the threshold at the first sample, 3000 microseconds after the start.\<close>

definition steady_world :: world where
  "steady_world =
     scripted_world
       [0, 1500, 3000, 20000, 21500, 23000, 40000, 41500, 43000,
        60000, 61500, 63000, 80000, 81500, 83000]
       [600, 600, 600, 600, 600]"

text \<open>
  Five cycles that read ADC code 100 once, 50 microseconds after the start, and find the
  deadline passed at the next loop test.
\<close>

definition dark_world :: world where
  "dark_world =
     scripted_world
       [0, 50, 100050, 200000, 200050, 300050, 400000, 400050, 500050,
        600000, 600050, 700050, 800000, 800050, 900050]
       [100, 100, 100, 100, 100]"

text \<open>
  A cycle that starts 50000 microseconds before the clock wraps, and one that starts 4
  microseconds before it and sees the wrapped clock at the first loop test. The sense pin
  is at full scale in both.
\<close>

definition wrap_world :: world where
  "wrap_world = scripted_world [4294917296, 4294917304] [1023]"

definition edge_world :: world where
  "edge_world = scripted_world [4294967292, 4, 128] [1023]"

text \<open>
  A cycle that starts 100050 microseconds before the clock wraps: its deadline does not
  wrap, the loop test 99950 microseconds after the start passes (ADC code 100), and the next
  reading, 100062 microseconds after the start, is taken after the clock has wrapped.
\<close>

definition late_world :: world where
  "late_world = scripted_world [4294867246, 4294967196, 12, 120] [100, 600]"

text \<open>Five cycles that cross the threshold within one clock tick of the start.\<close>

definition instant_world :: world where
  "instant_world =
     scripted_world
       [1000, 1000, 1000, 1000, 1000, 1000, 1000, 1000, 1000, 1000, 1000, 1000, 1000, 1000, 1000]
       [600, 600, 600, 600, 600]"

text \<open>Five cycles that cross the threshold 10 microseconds after the start.\<close>

definition quick_world :: world where
  "quick_world =
     scripted_world
       [0, 4, 10, 20000, 20004, 20010, 40000, 40004, 40010,
        60000, 60004, 60010, 80000, 80004, 80010]
       [600, 600, 600, 600, 600]"

section \<open>Properties of calculateCapacitance\<close>

lemma calculateCapacitance_raw:
  "calculateCapacitance t = (if t = 0 then 0 else max 0 (raw_capacitance_pf t - 20))"
  by (simp add: calculateCapacitance_def raw_capacitance_pf_def Let_def
      CAP_CHARGE_RESISTOR_def CAP_STRAY_PF_def max_def)

lemma raw_capacitance_pf_mono: "t1 \<le> t2 \<Longrightarrow> raw_capacitance_pf t1 \<le> raw_capacitance_pf t2"
  unfolding raw_capacitance_pf_def word_le_nat_alt by (simp del: of_nat_unat add: divide_right_mono)

lemma raw_capacitance_pf_strict: "t1 < t2 \<Longrightarrow> raw_capacitance_pf t1 < raw_capacitance_pf t2"
  unfolding raw_capacitance_pf_def word_less_nat_alt by (simp del: of_nat_unat add: divide_strict_right_mono)


lemma raw_capacitance_pf_30: "raw_capacitance_pf 30 < 20"
  by (simp add: raw_capacitance_pf_def)

lemma calculateCapacitance_clamped: "t \<le> 30 \<Longrightarrow> calculateCapacitance t = 0"
  using raw_capacitance_pf_mono [of t 30] raw_capacitance_pf_30
  by (simp add: calculateCapacitance_raw)



text \<open>
  The function does not decrease on any monotone target, whatever its rounding; on the
  exact target it is \<open>calculateCapacitance\<close>.
\<close>

lemma calculateCapacitance_rounded_exact:
  "calculateCapacitance_rounded exact_target t = calculateCapacitance t"
  by (simp add: calculateCapacitance_rounded_def calculateCapacitance_def exact_target_def Let_def
      del: of_nat_unat)

lemma monotone_target_exact: "monotone_target exact_target"
  by (simp add: monotone_target_def exact_target_def CAP_CHARGE_RESISTOR_def)

lemma calculateCapacitance_rounded_nonneg: "0 \<le> calculateCapacitance_rounded f t"
  by (simp add: calculateCapacitance_rounded_def Let_def)

lemma calculateCapacitance_rounded_mono:
  assumes "monotone_target f" and "t1 \<le> t2"
  shows "calculateCapacitance_rounded f t1 \<le> calculateCapacitance_rounded f t2"
proof (cases "t1 = 0")
  case True
  then show ?thesis
    using calculateCapacitance_rounded_nonneg [of f t2]
    by (simp add: calculateCapacitance_rounded_def)
next
  case False
  then have nz: "t2 \<noteq> 0" using assms(2) by auto
  have cm: "\<And>m n. m \<le> n \<Longrightarrow> conv f m \<le> conv f n"
    and rm: "\<And>a b. a \<le> b \<Longrightarrow> rnd f a \<le> rnd f b"
    and pos: "0 < c_million f" "0 < c_rc f" "0 \<le> c_tera f"
    using assms(1) by (simp_all add: monotone_target_def)
  let ?s1 = "rnd f (conv f (unat t1) / c_million f)"
  let ?s2 = "rnd f (conv f (unat t2) / c_million f)"
  have "unat t1 \<le> unat t2" using assms(2) by (simp add: word_le_nat_alt)
  then have "conv f (unat t1) \<le> conv f (unat t2)" by (rule cm)
  then have "conv f (unat t1) / c_million f \<le> conv f (unat t2) / c_million f"
    using pos(1) by (simp add: divide_right_mono)
  then have s: "?s1 \<le> ?s2" by (rule rm)
  let ?f1 = "rnd f (?s1 / c_rc f)"
  let ?f2 = "rnd f (?s2 / c_rc f)"
  have "?s1 / c_rc f \<le> ?s2 / c_rc f"
    using s pos(2) by (simp add: divide_right_mono)
  then have fa: "?f1 \<le> ?f2" by (rule rm)
  let ?p1 = "rnd f (?f1 * c_tera f)"
  let ?p2 = "rnd f (?f2 * c_tera f)"
  have "?f1 * c_tera f \<le> ?f2 * c_tera f"
    using fa pos(3) by (rule mult_right_mono)
  then have p: "?p1 \<le> ?p2" by (rule rm)
  have "?p1 - c_stray f \<le> ?p2 - c_stray f"
    using p by simp
  then have "rnd f (?p1 - c_stray f) \<le> rnd f (?p2 - c_stray f)" by (rule rm)
  then show ?thesis
    using False nz by (simp add: calculateCapacitance_rounded_def Let_def)
qed

section \<open>Properties of the measurement\<close>

subsection \<open>The polling loop\<close>

lemma idle_polls_fields [simp]:
  "micros_calls (idle_polls x j w) = micros_calls w + j"
  "adc_calls (idle_polls x j w) = adc_calls w + j"
  "clock (idle_polls x j w) = clock w"
  "adc (idle_polls x j w) = adc w"
  "modes (idle_polls x j w) = modes w"
  "levels (idle_polls x j w) = levels w"
  by (induction j arbitrary: w; simp add: micros_def analogRead_def)+

lemma idle_polls_log:
  "\<exists>es. log (idle_polls x j w) = log w @ es \<and> (\<forall>e\<in>set es. is_read e)"
proof (induction j arbitrary: w)
  case 0
  show ?case by simp
next
  case (Suc j)
  obtain es where
    "log (idle_polls x (Suc j) w) = log (snd (analogRead (CAP_SENSE_PIN x) (snd (micros w)))) @ es"
    "\<forall>e\<in>set es. is_read e"
    using Suc.IH by auto
  then show ?case
    by (auto simp: micros_def analogRead_def is_read_def)
qed

lemma poll_loop_idle:
  assumes "still_polling T w j"
  shows "poll_loop x s T w = poll_loop x s T (idle_polls x j w)"
  using assms
proof (induction j arbitrary: w)
  case 0
  show ?case by simp
next
  case (Suc j)
  let ?w2 = "snd (analogRead (CAP_SENSE_PIN x) (snd (micros w)))"
  from Suc.prems have first: "clock w (micros_calls w) < T" "adc w (adc_calls w) < CAP_ADC_THRESHOLD"
    unfolding still_polling_def by force+
  have "still_polling T ?w2 j"
    using Suc.prems unfolding still_polling_def by (auto simp: micros_def analogRead_def)
  then have "poll_loop x s T ?w2 = poll_loop x s T (idle_polls x j ?w2)"
    by (rule Suc.IH)
  moreover have "poll_loop x s T w = poll_loop x s T ?w2"
    using first by (subst poll_loop.simps) (simp add: micros_def analogRead_def)
  ultimately show ?case by simp
qed

lemma poll_loop_timeout:
  assumes "\<not> clock w (micros_calls w) < T"
  shows "poll_loop x s T w = Some (Fell_through, snd (micros w))"
  using assms by (subst poll_loop.simps) (simp add: micros_def)

lemma poll_loop_threshold:
  assumes "clock w (micros_calls w) < T" and "CAP_ADC_THRESHOLD \<le> adc w (adc_calls w)"
  shows "poll_loop x s T w =
         Some (Returned (clock w (Suc (micros_calls w)) - s),
               finish_charge (snd (micros (snd (analogRead (CAP_SENSE_PIN x) (snd (micros w)))))))"
  using assms by (subst poll_loop.simps) (simp add: micros_def analogRead_def finish_charge_def)

lemma poll_loop_exits:
  assumes "poll_exits_at T w j"
  shows "poll_loop x s T w = Some (poll_outcome x s T w j)"
proof -
  have "poll_loop x s T w = poll_loop x s T (idle_polls x j w)"
    using assms by (intro poll_loop_idle) (simp add: poll_exits_at_def)
  also have "\<dots> = Some (poll_outcome x s T w j)"
  proof (cases "clock w (micros_calls w + j) < T")
    case True
    then have "CAP_ADC_THRESHOLD \<le> adc w (adc_calls w + j)"
      using assms by (simp add: poll_exits_at_def)
    with True show ?thesis
      by (simp add: poll_loop_threshold poll_outcome_def)
  next
    case False
    then show ?thesis
      by (simp add: poll_loop_timeout poll_outcome_def)
  qed
  finally show ?thesis .
qed

lemma poll_exits_at_Suc:
  assumes "clock w (micros_calls w) < T" and "adc w (adc_calls w) < CAP_ADC_THRESHOLD"
    and "poll_exits_at T (snd (analogRead p (snd (micros w)))) j"
  shows "poll_exits_at T w (Suc j)"
  using assms
  apply (simp add: poll_exits_at_def still_polling_def micros_def analogRead_def)
  apply (intro conjI allI impI)
  subgoal for i by (cases i) auto
  subgoal for i by (cases i) auto
  done

lemmas poll_loop_induct =
  poll_loop.raw_induct [where xa = "(((x, s), T), w)" and y = r, simplified] for x s T w r

lemma poll_loop_Some_exits:
  assumes "poll_loop x s T w = Some r"
  shows "\<exists>j. poll_exits_at T w j"
  using assms
proof (induction rule: poll_loop_induct [where P = "\<lambda>x s T w r. \<exists>j. poll_exits_at T w j", rotated, consumes 1])
  case (1 f x s T w r)
  show ?case
  proof (cases "clock w (micros_calls w) < T")
    case False
    then have "poll_exits_at T w 0"
      by (simp add: poll_exits_at_def still_polling_def)
    then show ?thesis ..
  next
    case True
    show ?thesis
    proof (cases "CAP_ADC_THRESHOLD \<le> adc w (adc_calls w)")
      case True
      with \<open>clock w (micros_calls w) < T\<close> have "poll_exits_at T w 0"
        by (simp add: poll_exits_at_def still_polling_def)
      then show ?thesis ..
    next
      case False
      let ?w2 = "snd (analogRead (CAP_SENSE_PIN x) (snd (micros w)))"
      from 1(2) True False have "f x s T ?w2 = Some r"
        by (simp add: micros_def analogRead_def split: prod.splits)
      then obtain j where "poll_exits_at T ?w2 j"
        using 1(1) by blast
      with True False have "poll_exits_at T w (Suc j)"
        by (intro poll_exits_at_Suc) auto
      then show ?thesis ..
    qed
  qed
qed

subsection \<open>One charge cycle\<close>

lemma charge_start_fields [simp]:
  "micros_calls (charge_start w) = Suc (micros_calls w)"
  "adc_calls (charge_start w) = adc_calls w"
  "clock (charge_start w) = clock w"
  "adc (charge_start w) = adc w"
  "log (charge_start w) =
     log w @ [DigitalWrite CAP_CHARGE_PIN LOW, DigitalWrite CAP_DISCHARGE_PIN LOW,
              Delay CAP_DISCHARGE_TIME_MS, PinMode CAP_DISCHARGE_PIN INPUT,
              Micros (start_time w), DigitalWrite CAP_CHARGE_PIN HIGH]"
  by (simp_all add: charge_start_def dischargeCable_def micros_def pinMode_def digitalWrite_def
      delay_def start_time_def)

lemma charge_start_pins:
  "p \<noteq> CAP_CHARGE_PIN \<Longrightarrow> p \<noteq> CAP_DISCHARGE_PIN \<Longrightarrow>
     modes (charge_start w) p = modes w p \<and> levels (charge_start w) p = levels w p"
  by (simp add: charge_start_def dischargeCable_def micros_def pinMode_def digitalWrite_def
      delay_def)

lemma finish_charge_fields [simp]:
  "micros_calls (finish_charge w) = micros_calls w"
  "adc_calls (finish_charge w) = adc_calls w"
  "clock (finish_charge w) = clock w"
  "adc (finish_charge w) = adc w"
  "log (finish_charge w) =
     log w @ [DigitalWrite CAP_CHARGE_PIN LOW, PinMode CAP_DISCHARGE_PIN OUTPUT,
              DigitalWrite CAP_DISCHARGE_PIN LOW]"
  "levels (finish_charge w) CAP_CHARGE_PIN = LOW"
  "modes (finish_charge w) CAP_DISCHARGE_PIN = OUTPUT"
  "levels (finish_charge w) CAP_DISCHARGE_PIN = LOW"
  by (simp_all add: finish_charge_def pinMode_def digitalWrite_def CAP_CHARGE_PIN_def
      CAP_DISCHARGE_PIN_def)

lemma finish_charge_pins:
  "p \<noteq> CAP_CHARGE_PIN \<Longrightarrow> p \<noteq> CAP_DISCHARGE_PIN \<Longrightarrow>
     modes (finish_charge w) p = modes w p \<and> levels (finish_charge w) p = levels w p"
  by (simp add: finish_charge_def pinMode_def digitalWrite_def)

lemma measureChargeTime_poll:
  "measureChargeTime x w =
     (case poll_loop x (start_time w) (deadline w) (charge_start w) of
        None \<Rightarrow> None
      | Some (Returned t, w5) \<Rightarrow> Some (t, w5)
      | Some (Fell_through, w5) \<Rightarrow> Some (0, finish_charge w5))"
  unfolding measureChargeTime_def finish_charge_def charge_start_def deadline_def Let_def
  by (simp add: micros_def start_time_def pinMode_def dischargeCable_def delay_def
      digitalWrite_def)

lemma measureChargeTime_exits:
  assumes "cycle_exits_at w j"
  shows "measureChargeTime x w = Some (cycle_outcome x w j)"
  using poll_loop_exits [OF assms [unfolded cycle_exits_at_def], of x "start_time w"]
  by (simp add: measureChargeTime_poll cycle_outcome_def split: prod.splits loop_exit.splits)

lemma measureChargeTime_Some:
  assumes "measureChargeTime x w = Some r"
  shows "\<exists>j. cycle_exits_at w j \<and> r = cycle_outcome x w j"
proof -
  from assms obtain r' where "poll_loop x (start_time w) (deadline w) (charge_start w) = Some r'"
    by (auto simp: measureChargeTime_poll split: option.splits)
  then obtain j where j: "cycle_exits_at w j"
    using poll_loop_Some_exits unfolding cycle_exits_at_def by blast
  from measureChargeTime_exits [OF j, of x] assms have "r = cycle_outcome x w j" by simp
  with j show ?thesis by blast
qed

lemma cycle_outcome_time:
  "fst (cycle_outcome x w j) =
     (if crossed_at w j then clock w (Suc (Suc (micros_calls w)) + j) - start_time w else 0)"
  by (simp add: cycle_outcome_def poll_outcome_def Let_def crossed_at_def)

lemma cycle_outcome_fields [simp]:
  "micros_calls (snd (cycle_outcome x w j)) = micros_calls w + j + (if crossed_at w j then 3 else 2)"
  "adc_calls (snd (cycle_outcome x w j)) = adc_calls w + j + (if crossed_at w j then 1 else 0)"
  "clock (snd (cycle_outcome x w j)) = clock w"
  "adc (snd (cycle_outcome x w j)) = adc w"
  "levels (snd (cycle_outcome x w j)) CAP_CHARGE_PIN = LOW"
  "modes (snd (cycle_outcome x w j)) CAP_DISCHARGE_PIN = OUTPUT"
  "levels (snd (cycle_outcome x w j)) CAP_DISCHARGE_PIN = LOW"
  by (simp_all add: cycle_outcome_def poll_outcome_def Let_def crossed_at_def micros_def
      analogRead_def)

lemma cycle_outcome_pins:
  assumes "p \<noteq> CAP_CHARGE_PIN" and "p \<noteq> CAP_DISCHARGE_PIN"
  shows "modes (snd (cycle_outcome x w j)) p = modes w p"
    and "levels (snd (cycle_outcome x w j)) p = levels w p"
  using assms
  by (simp_all add: cycle_outcome_def poll_outcome_def Let_def micros_def analogRead_def
      finish_charge_pins charge_start_pins)

lemma cycle_outcome_log:
  "\<exists>mid. log (snd (cycle_outcome x w j)) =
           log w @ [DigitalWrite CAP_CHARGE_PIN LOW, DigitalWrite CAP_DISCHARGE_PIN LOW,
                    Delay CAP_DISCHARGE_TIME_MS, PinMode CAP_DISCHARGE_PIN INPUT,
                    Micros (start_time w), DigitalWrite CAP_CHARGE_PIN HIGH]
                 @ mid
                 @ [DigitalWrite CAP_CHARGE_PIN LOW, PinMode CAP_DISCHARGE_PIN OUTPUT,
                    DigitalWrite CAP_DISCHARGE_PIN LOW] \<and>
         (\<forall>e\<in>set mid. is_read e) \<and>
         (crossed_at w j \<longrightarrow> mid \<noteq> [])"
proof -
  obtain es where es: "log (idle_polls x j (charge_start w)) = log (charge_start w) @ es"
    "\<forall>e\<in>set es. is_read e"
    using idle_polls_log by blast
  show ?thesis
  proof (cases "crossed_at w j")
    case True
    let ?mid = "es @ [Micros (clock w (Suc (micros_calls w) + j)),
                      AnalogRead (CAP_SENSE_PIN x) (adc w (adc_calls w + j)),
                      Micros (clock w (Suc (Suc (micros_calls w)) + j))]"
    from True es have "log (snd (cycle_outcome x w j)) = log (charge_start w) @ ?mid @
        [DigitalWrite CAP_CHARGE_PIN LOW, PinMode CAP_DISCHARGE_PIN OUTPUT,
         DigitalWrite CAP_DISCHARGE_PIN LOW]"
      by (simp add: cycle_outcome_def poll_outcome_def Let_def crossed_at_def micros_def
          analogRead_def)
    moreover have "\<forall>e\<in>set ?mid. is_read e"
      using es(2) by (simp add: is_read_def)
    ultimately show ?thesis
      by (intro exI [of _ ?mid]) simp
  next
    case False
    let ?mid = "es @ [Micros (clock w (Suc (micros_calls w) + j))]"
    from False es have "log (snd (cycle_outcome x w j)) = log (charge_start w) @ ?mid @
        [DigitalWrite CAP_CHARGE_PIN LOW, PinMode CAP_DISCHARGE_PIN OUTPUT,
         DigitalWrite CAP_DISCHARGE_PIN LOW]"
      by (simp add: cycle_outcome_def poll_outcome_def Let_def crossed_at_def micros_def)
    moreover have "\<forall>e\<in>set ?mid. is_read e"
      using es(2) by (simp add: is_read_def)
    ultimately show ?thesis
      using False by (intro exI [of _ ?mid]) simp
  qed
qed

subsection \<open>The sampling loop\<close>

lemma sample_loop_run_cycles:
  assumes "0 \<le> i" and "i \<le> CAP_NUM_SAMPLES"
  shows "sample_loop x i tot n w =
     (case run_cycles x (nat (CAP_NUM_SAMPLES - i)) w of
        None \<Rightarrow> None
      | Some (ts, w') \<Rightarrow>
          Some (tot + sum_list (valid_times ts), n + int (length (valid_times ts)), w'))"
  using assms
proof (induction x i tot n w rule: sample_loop.induct)
  case (1 x i totalTime validSamples w)
  show ?case
  proof (cases "i < CAP_NUM_SAMPLES")
    case False
    with 1(4) have "i = CAP_NUM_SAMPLES" by simp
    then show ?thesis
      by (subst sample_loop.simps) (simp add: valid_times_def)
  next
    case True
    then have n: "nat (CAP_NUM_SAMPLES - i) = Suc (nat (CAP_NUM_SAMPLES - (i + 1)))"
      by simp
    show ?thesis
    proof (cases "measureChargeTime x w")
      case None
      with True show ?thesis
        by (subst sample_loop.simps) (simp add: n del: nat_diff_distrib)
    next
      case (Some r)
      obtain t w1 where r: "r = (t, w1)" by (cases r)
      have bounds: "0 \<le> i + 1" "i + 1 \<le> CAP_NUM_SAMPLES"
        using True 1(3) by simp_all
      show ?thesis
      proof (cases "t > 0")
        case True
        have "sample_loop x i totalTime validSamples w =
              sample_loop x (i + 1) (totalTime + t) (validSamples + 1) (delay 10 w1)"
          using \<open>i < CAP_NUM_SAMPLES\<close> Some r True by (subst sample_loop.simps) simp
        also note 1(1) [OF \<open>i < CAP_NUM_SAMPLES\<close> Some r [symmetric] True bounds]
        finally show ?thesis
          using Some r True
          by (simp add: n valid_times_def word_neq_0_conv split: option.splits del: nat_diff_distrib)
      next
        case False
        have "sample_loop x i totalTime validSamples w =
              sample_loop x (i + 1) totalTime validSamples (delay 10 w1)"
          using \<open>i < CAP_NUM_SAMPLES\<close> Some r False by (subst sample_loop.simps) simp
        also note 1(2) [OF \<open>i < CAP_NUM_SAMPLES\<close> Some r [symmetric] False bounds]
        finally show ?thesis
          using Some r False
          by (simp add: n valid_times_def word_neq_0_conv split: option.splits del: nat_diff_distrib)
      qed
    qed
  qed
qed

lemma measureCapacitance_run_cycles:
  "measureCapacitance x w =
     (case run_cycles x 5 w of
        None \<Rightarrow> None
      | Some (ts, w') \<Rightarrow> Some (averaged_result ts, w'))"
proof -
  have "sample_loop x 0 0 0 w =
     (case run_cycles x 5 w of
        None \<Rightarrow> None
      | Some (ts, w') \<Rightarrow> Some (sum_list (valid_times ts), int (length (valid_times ts)), w'))"
    using sample_loop_run_cycles [of 0 x 0 0 w]
    by (simp add: CAP_NUM_SAMPLES_def cong: option.case_cong)
  then show ?thesis
    by (simp add: measureCapacitance_def averaged_result_def Let_def split: option.splits)
qed

lemma run_cycles_length: "run_cycles x n w = Some (ts, w') \<Longrightarrow> length ts = n"
  by (induction n arbitrary: w ts) (auto split: option.splits)

lemma unat_sum_list:
  fixes vs :: "u32 list"
  assumes "sum_list (map unat vs) < 2 ^ 32"
  shows "unat (sum_list vs) = sum_list (map unat vs)"
  using assms
proof (induction vs)
  case Nil
  show ?case by simp
next
  case (Cons v vs)
  then have "unat (sum_list vs) = sum_list (map unat vs)" by simp
  moreover have "unat v + sum_list (map unat vs) < 2 ^ 32" using Cons.prems by simp
  ultimately show ?case
    by (simp add: unat_word_ariths)
qed

lemma unat_average:
  fixes vs :: "u32 list"
  assumes "sum_list (map unat vs) < 2 ^ 32" and "length vs < 2 ^ 32"
  shows "unat (sum_list vs div of_nat (length vs)) = sum_list (map unat vs) div length vs"
  using assms by (simp add: unat_div unat_sum_list unat_of_nat)

lemma valid_averaged_result: "valid (averaged_result ts) = (valid_times ts \<noteq> [])"
  by (simp add: averaged_result_def)

lemma valid_times_empty: "(valid_times ts = []) = (\<forall>t\<in>set ts. t = 0)"
  by (auto simp: valid_times_def filter_empty_conv)

lemma delay_fields [simp]:
  "micros_calls (delay n w) = micros_calls w"
  "adc_calls (delay n w) = adc_calls w"
  "clock (delay n w) = clock w"
  "adc (delay n w) = adc w"
  "modes (delay n w) = modes w"
  "levels (delay n w) = levels w"
  "log (delay n w) = log w @ [Delay n]"
  by (simp_all add: delay_def)

lemma enter_cap_mode_fields [simp]:
  "micros_calls (enter_cap_mode x w) = micros_calls w"
  "adc_calls (enter_cap_mode x w) = adc_calls w"
  "clock (enter_cap_mode x w) = clock w"
  "adc (enter_cap_mode x w) = adc w"
  by (simp_all add: enter_cap_mode_def pinMode_def digitalWrite_def)

lemma scripted_world_fields [simp]:
  "micros_calls (scripted_world ts vs) = 0"
  "adc_calls (scripted_world ts vs) = 0"
  "clock (scripted_world ts vs) n = (if n < length ts then ts ! n else 0)"
  "adc (scripted_world ts vs) n = (if n < length vs then vs ! n else 0)"
  by (simp_all add: scripted_world_def)

subsection \<open>Cycles that leave the loop in their first or second iteration\<close>

lemma measureChargeTime_exit0:
  assumes "crossed_at w 0 \<longrightarrow> CAP_ADC_THRESHOLD \<le> adc w (adc_calls w)"
  shows "measureChargeTime x w = Some (cycle_outcome x w 0)"
  using assms
  by (intro measureChargeTime_exits)
     (simp add: cycle_exits_at_def poll_exits_at_def still_polling_def crossed_at_def)

lemma run_cycles_Suc_exit0:
  assumes "crossed_at w 0 \<longrightarrow> CAP_ADC_THRESHOLD \<le> adc w (adc_calls w)"
  shows "run_cycles x (Suc n) w =
     (case run_cycles x n (delay 10 (snd (cycle_outcome x w 0))) of
        None \<Rightarrow> None
      | Some (ts, w2) \<Rightarrow> Some (fst (cycle_outcome x w 0) # ts, w2))"
  using measureChargeTime_exit0 [OF assms, of x]
  by (simp add: case_prod_unfold)

lemma five_cycles: "run_cycles x 5 w = run_cycles x (Suc (Suc (Suc (Suc (Suc 0))))) w"
  by (simp add: eval_nat_numeral)

lemmas eval_cycle = run_cycles_Suc_exit0 crossed_at_def deadline_def start_time_def
      CAP_TIMEOUT_US_def CAP_ADC_THRESHOLD_def cycle_outcome_time

subsection \<open>The test and its report\<close>

lemma is_read_not_serial: "is_read e \<Longrightarrow> \<not> is_serial e"
  by (cases e) (simp_all add: is_read_def is_serial_def)

lemma is_serial_simps [simp]:
  "\<not> is_serial (PinMode p m)" "\<not> is_serial (DigitalWrite p v)" "\<not> is_serial (Delay n)"
  "\<not> is_serial (Micros t)" "\<not> is_serial (AnalogRead p a)" "\<not> is_serial ResetCircuit"
  "is_serial (Print s)" "is_serial (PrintFloat r d)" "is_serial (PrintULong t)"
  "is_serial (PrintInt i)" "is_serial (Println s)" "is_serial (PrintlnInt i)"
  by (simp_all add: is_serial_def)

lemma cycle_outcome_ends:
  "\<exists>pre. log (delay 10 (snd (cycle_outcome x w j))) =
           log w @ pre @ [DigitalWrite CAP_CHARGE_PIN LOW, PinMode CAP_DISCHARGE_PIN OUTPUT,
                          DigitalWrite CAP_DISCHARGE_PIN LOW, Delay 10] \<and>
         (\<forall>e\<in>set pre. \<not> is_serial e)"
proof -
  obtain mid where mid:
    "log (snd (cycle_outcome x w j)) =
       log w @ [DigitalWrite CAP_CHARGE_PIN LOW, DigitalWrite CAP_DISCHARGE_PIN LOW,
                Delay CAP_DISCHARGE_TIME_MS, PinMode CAP_DISCHARGE_PIN INPUT,
                Micros (start_time w), DigitalWrite CAP_CHARGE_PIN HIGH]
             @ mid
             @ [DigitalWrite CAP_CHARGE_PIN LOW, PinMode CAP_DISCHARGE_PIN OUTPUT,
                DigitalWrite CAP_DISCHARGE_PIN LOW]"
    "\<forall>e\<in>set mid. is_read e"
    using cycle_outcome_log by blast
  let ?pre = "[DigitalWrite CAP_CHARGE_PIN LOW, DigitalWrite CAP_DISCHARGE_PIN LOW,
               Delay CAP_DISCHARGE_TIME_MS, PinMode CAP_DISCHARGE_PIN INPUT,
               Micros (start_time w), DigitalWrite CAP_CHARGE_PIN HIGH] @ mid"
  have "\<forall>e\<in>set ?pre. \<not> is_serial e"
    using mid(2) by (auto dest: is_read_not_serial)
  moreover have "log (delay 10 (snd (cycle_outcome x w j))) =
      log w @ ?pre @ [DigitalWrite CAP_CHARGE_PIN LOW, PinMode CAP_DISCHARGE_PIN OUTPUT,
                      DigitalWrite CAP_DISCHARGE_PIN LOW, Delay 10]"
    using mid(1) by simp
  ultimately show ?thesis by blast
qed

lemma run_cycles_ends:
  assumes "run_cycles x (Suc n) w = Some (ts, w')"
  shows "(\<exists>pre. log w' =
           log w @ pre @ [DigitalWrite CAP_CHARGE_PIN LOW, PinMode CAP_DISCHARGE_PIN OUTPUT,
                          DigitalWrite CAP_DISCHARGE_PIN LOW, Delay 10] \<and>
           (\<forall>e\<in>set pre. \<not> is_serial e)) \<and>
         levels w' CAP_CHARGE_PIN = LOW \<and>
         modes w' CAP_DISCHARGE_PIN = OUTPUT \<and> levels w' CAP_DISCHARGE_PIN = LOW"
  using assms
proof (induction n arbitrary: w ts)
  case 0
  then obtain r where r: "measureChargeTime x w = Some r" and w': "w' = delay 10 (snd r)"
    by (auto split: option.splits)
  then obtain j where "r = cycle_outcome x w j"
    using measureChargeTime_Some by blast
  with w' show ?case
    using cycle_outcome_ends [of x w j] by simp
next
  case (Suc n)
  from Suc.prems obtain r ts' where r: "measureChargeTime x w = Some r"
    and rest: "run_cycles x (Suc n) (delay 10 (snd r)) = Some (ts', w')"
    by (auto split: option.splits)
  obtain j where j: "r = cycle_outcome x w j"
    using r measureChargeTime_Some by blast
  from Suc.IH [OF rest] obtain pre where pre:
    "log w' = log (delay 10 (snd r)) @ pre @
       [DigitalWrite CAP_CHARGE_PIN LOW, PinMode CAP_DISCHARGE_PIN OUTPUT,
        DigitalWrite CAP_DISCHARGE_PIN LOW, Delay 10]"
    "\<forall>e\<in>set pre. \<not> is_serial e"
    and pins: "levels w' CAP_CHARGE_PIN = LOW" "modes w' CAP_DISCHARGE_PIN = OUTPUT"
      "levels w' CAP_DISCHARGE_PIN = LOW"
    by blast
  obtain pre0 where pre0:
    "log (delay 10 (snd r)) = log w @ pre0 @
       [DigitalWrite CAP_CHARGE_PIN LOW, PinMode CAP_DISCHARGE_PIN OUTPUT,
        DigitalWrite CAP_DISCHARGE_PIN LOW, Delay 10]"
    "\<forall>e\<in>set pre0. \<not> is_serial e"
    using cycle_outcome_ends [of x w j] j by blast
  let ?pre = "pre0 @ [DigitalWrite CAP_CHARGE_PIN LOW, PinMode CAP_DISCHARGE_PIN OUTPUT,
        DigitalWrite CAP_DISCHARGE_PIN LOW, Delay 10] @ pre"
  have "log w' = log w @ ?pre @ [DigitalWrite CAP_CHARGE_PIN LOW, PinMode CAP_DISCHARGE_PIN OUTPUT,
        DigitalWrite CAP_DISCHARGE_PIN LOW, Delay 10]"
    using pre(1) pre0(1) by simp
  moreover have "\<forall>e\<in>set ?pre. \<not> is_serial e"
    using pre(2) pre0(2) by auto
  ultimately show ?case using pins by blast
qed

lemma enter_cap_mode_log:
  "log (enter_cap_mode x w) =
     log w @ [DigitalWrite (K1_K2_RELAY_PIN x) HIGH, DigitalWrite (K4_RELAY_PIN x) LOW,
              PinMode (TS_CONT_OUT_SLEEVE_PIN x) INPUT, PinMode (TS_CONT_OUT_TIP_PIN x) INPUT,
              Delay 20]"
  by (simp add: enter_cap_mode_def pinMode_def digitalWrite_def)

lemma restore_cont_pins_log:
  "log (restore_cont_pins x w) =
     log w @ [PinMode (TS_CONT_OUT_SLEEVE_PIN x) OUTPUT, DigitalWrite (TS_CONT_OUT_SLEEVE_PIN x) LOW,
              PinMode (TS_CONT_OUT_TIP_PIN x) OUTPUT, DigitalWrite (TS_CONT_OUT_TIP_PIN x) LOW]"
  by (simp add: restore_cont_pins_def pinMode_def digitalWrite_def)

lemma restore_cont_pins_idle:
  assumes "levels w CAP_CHARGE_PIN = LOW" and "modes w CAP_DISCHARGE_PIN = OUTPUT"
    and "levels w CAP_DISCHARGE_PIN = LOW"
  shows "cap_pins_idle x (restore_cont_pins x w)"
  using assms by (simp add: cap_pins_idle_def restore_cont_pins_def pinMode_def digitalWrite_def)

lemma leave_cap_mode_fields:
  "log (leave_cap_mode x w) = log (restore_cont_pins x w) @ [ResetCircuit]"
  "(modes (leave_cap_mode x w), levels (leave_cap_mode x w)) =
     resetCircuit_body x (modes (restore_cont_pins x w), levels (restore_cont_pins x w))"
  by (simp_all add: leave_cap_mode_def resetCircuit_def split: prod.splits)

lemma measureCapacitance_Some:
  assumes "measureCapacitance x w = Some (r, w')"
  shows "\<exists>ts. run_cycles x 5 w = Some (ts, w') \<and> r = averaged_result ts"
  using assms by (auto simp: measureCapacitance_run_cycles split: option.splits)

lemma measureCapacitance_capacitance:
  assumes "measureCapacitance x w = Some (r, w')"
  shows "capacitance_pf r = calculateCapacitance (charge_time_us r)"
proof -
  obtain ts where "r = averaged_result ts"
    using measureCapacitance_Some [OF assms] by blast
  then show ?thesis
    by (simp add: averaged_result_def calculateCapacitance_def)
qed

lemma report_events_serial: "report_events r \<noteq> [] \<and> (\<forall>e\<in>set (report_events r). is_serial e)"
  by (simp add: report_events_def)

lemma runCapacitanceTest_Some:
  assumes "measureCapacitance x (enter_cap_mode x w) = Some (r, w1)"
  shows "\<exists>w'. runCapacitanceTest x w =
           Some (valid r \<and> 50 \<le> capacitance_pf r \<and> capacitance_pf r \<le> 2000, w') \<and>
         log w' = log (leave_cap_mode x w1) @ report_events r \<and>
         modes w' = modes (leave_cap_mode x w1) \<and> levels w' = levels (leave_cap_mode x w1)"
  using assms
  by (simp add: runCapacitanceTest_def report_events_def Let_def serial_println_def
      serial_print_def serial_print_float_def serial_print_ulong_def serial_println_int_def)

lemma runCapacitanceTest_None:
  "measureCapacitance x (enter_cap_mode x w) = None \<Longrightarrow> runCapacitanceTest x w = None"
  by (simp add: runCapacitanceTest_def)

lemma measureChargeTime_exit1:
  assumes "crossed_at w 0" and "adc w (adc_calls w) < CAP_ADC_THRESHOLD"
    and "crossed_at w (Suc 0) \<longrightarrow> CAP_ADC_THRESHOLD \<le> adc w (Suc (adc_calls w))"
  shows "measureChargeTime x w = Some (cycle_outcome x w (Suc 0))"
  using assms
  by (intro measureChargeTime_exits)
     (simp add: cycle_exits_at_def poll_exits_at_def still_polling_def crossed_at_def)

lemma run_cycles_Suc_exit1:
  assumes "crossed_at w 0" and "adc w (adc_calls w) < CAP_ADC_THRESHOLD"
    and "crossed_at w (Suc 0) \<longrightarrow> CAP_ADC_THRESHOLD \<le> adc w (Suc (adc_calls w))"
  shows "run_cycles x (Suc n) w =
     (case run_cycles x n (delay 10 (snd (cycle_outcome x w (Suc 0)))) of
        None \<Rightarrow> None
      | Some (ts, w2) \<Rightarrow> Some (fst (cycle_outcome x w (Suc 0)) # ts, w2))"
  using measureChargeTime_exit1 [OF assms, of x]
  by (simp add: case_prod_unfold)

lemma map_option_fst_Some: "map_option fst r = Some a \<Longrightarrow> \<exists>b. r = Some (a, b)"
  by (cases r) auto

lemma mixed_world_times:
  "map_option fst (run_cycles bench 5 mixed_world) = Some [10, 0, 100, 0, 0]"
  unfolding five_cycles mixed_world_def
  by (simp add: eval_cycle del: run_cycles.simps(2))

lemma steady_world_times:
  "map_option fst (run_cycles bench 5 (enter_cap_mode bench steady_world)) =
     Some [3000, 3000, 3000, 3000, 3000]"
  unfolding five_cycles steady_world_def
  by (simp add: eval_cycle del: run_cycles.simps(2))

lemma dark_world_times:
  "map_option fst (run_cycles bench 5 (enter_cap_mode bench dark_world)) = Some [0, 0, 0, 0, 0]"
  unfolding five_cycles dark_world_def
  by (simp add: run_cycles_Suc_exit1 crossed_at_def deadline_def start_time_def
      CAP_TIMEOUT_US_def CAP_ADC_THRESHOLD_def cycle_outcome_time del: run_cycles.simps(2))

lemma runCapacitanceTest_steady:
  "map_option fst (runCapacitanceTest bench steady_world) = Some True"
proof -
  obtain w1 where h: "run_cycles bench 5 (enter_cap_mode bench steady_world) =
      Some ([3000, 3000, 3000, 3000, 3000], w1)"
    using map_option_fst_Some [OF steady_world_times] by blast
  have "averaged_result [3000, 3000, 3000, 3000, 3000] =
      \<lparr>valid = True, capacitance_pf = calculateCapacitance 3000, charge_time_us = 3000,
       num_samples = 5\<rparr>"
    by (simp add: averaged_result_def valid_times_def)
  then have "measureCapacitance bench (enter_cap_mode bench steady_world) =
      Some (\<lparr>valid = True, capacitance_pf = calculateCapacitance 3000, charge_time_us = 3000,
             num_samples = 5\<rparr>, w1)"
    using h by (simp add: measureCapacitance_run_cycles)
  from runCapacitanceTest_Some [OF this] show ?thesis
    by (auto simp: calculateCapacitance_raw raw_capacitance_pf_def)
qed

subsection \<open>The deadline and the wraparound of the clock\<close>

lemma deadline_wrapped:
  assumes "2 ^ 32 \<le> unat (start_time w) + 100000"
  shows "unat (deadline w) = unat (start_time w) + 100000 - 2 ^ 32"
proof -
  have "unat (start_time w) < 2 ^ 32"
    using unsigned_less [of "start_time w"] by simp
  then have "(unat (start_time w) + 100000) mod 2 ^ 32 = unat (start_time w) + 100000 - 2 ^ 32"
    using assms by (simp add: le_mod_geq)
  then show ?thesis
    by (simp add: deadline_def CAP_TIMEOUT_US_def unat_word_ariths)
qed

lemma deadline_not_wrapped:
  assumes "unat (start_time w) + 100000 < 2 ^ 32"
  shows "unat (deadline w) = unat (start_time w) + 100000"
  using assms by (simp add: deadline_def CAP_TIMEOUT_US_def unat_word_ariths)

lemma cycle_outcome_timeout0_log:
  assumes "\<not> crossed_at w 0"
  shows "log (snd (cycle_outcome x w 0)) =
     log w @ [DigitalWrite CAP_CHARGE_PIN LOW, DigitalWrite CAP_DISCHARGE_PIN LOW,
              Delay CAP_DISCHARGE_TIME_MS, PinMode CAP_DISCHARGE_PIN INPUT,
              Micros (start_time w), DigitalWrite CAP_CHARGE_PIN HIGH,
              Micros (clock w (Suc (micros_calls w))),
              DigitalWrite CAP_CHARGE_PIN LOW, PinMode CAP_DISCHARGE_PIN OUTPUT,
              DigitalWrite CAP_DISCHARGE_PIN LOW]"
  using assms
  by (simp add: cycle_outcome_def poll_outcome_def crossed_at_def micros_def)

text \<open>
  When the deadline does not wrap, the loop test compares the clock reading, as a number,
  with start + 100000: the function returns the elapsed time of the first sample at or
  above the threshold, or 0 at the first reading that is not below the deadline. A reading
  taken after the clock has wrapped is a small number and passes the test however much
  time has gone by; \<open>late_world\<close> is such a run.
\<close>

lemma measureChargeTime_no_wrap:
  assumes "unat (start_time w) + 100000 < 2 ^ 32" and "measureChargeTime x w = Some (t, w')"
  shows "\<exists>j. (\<forall>i<j. unat (clock w (Suc (micros_calls w) + i)) < unat (start_time w) + 100000 \<and>
                    adc w (adc_calls w + i) < 512) \<and>
             (if unat (clock w (Suc (micros_calls w) + j)) < unat (start_time w) + 100000
              then 512 \<le> adc w (adc_calls w + j) \<and>
                   t = clock w (Suc (Suc (micros_calls w)) + j) - start_time w
              else t = 0)"
proof -
  have lt: "(c < deadline w) = (unat c < unat (start_time w) + 100000)" for c
    using deadline_not_wrapped [OF assms(1)] by (simp add: word_less_nat_alt)
  from measureChargeTime_Some [OF assms(2)] obtain j where
    j: "cycle_exits_at w j" and r: "(t, w') = cycle_outcome x w j"
    by blast
  from r have t: "t = fst (cycle_outcome x w j)"
    by (metis fst_conv)
  show ?thesis
    using j t
    by (intro exI [of _ j])
       (auto simp: cycle_exits_at_def poll_exits_at_def still_polling_def cycle_outcome_time
          crossed_at_def lt CAP_ADC_THRESHOLD_def)
qed

lemma late_world_polls_past_deadline:
  "unat (start_time late_world) + 100000 < 2 ^ 32 \<and>
   clock late_world 2 - start_time late_world = 100062 \<and>
   map_option fst (measureChargeTime bench late_world) = Some 100170 \<and>
   map_option (adc_calls \<circ> snd) (measureChargeTime bench late_world) = Some 2"
  by (simp add: late_world_def measureChargeTime_exit1 crossed_at_def deadline_def start_time_def
      CAP_TIMEOUT_US_def CAP_ADC_THRESHOLD_def cycle_outcome_time)

subsection \<open>Calibration\<close>

lemma calibration_prologue_fields [simp]:
  "micros_calls (calibration_prologue w) = micros_calls w"
  "adc_calls (calibration_prologue w) = adc_calls w"
  "clock (calibration_prologue w) = clock w"
  "adc (calibration_prologue w) = adc w"
  by (simp_all add: calibration_prologue_def serial_println_def)

lemma instant_world_times:
  "map_option fst (run_cycles bench 5 (enter_cap_mode bench instant_world)) = Some [0, 0, 0, 0, 0]"
  unfolding five_cycles instant_world_def
  by (simp add: eval_cycle del: run_cycles.simps(2))

lemma calculateCapacitance_add_back:
  "calculateCapacitance t + CAP_STRAY_PF = max 20 (raw_capacitance_pf t)"
proof (cases "t = 0")
  case True
  then show ?thesis
    by (simp add: calculateCapacitance_raw CAP_STRAY_PF_def raw_capacitance_pf_def)
next
  case False
  then show ?thesis
    by (simp add: calculateCapacitance_raw CAP_STRAY_PF_def max_def)
qed

text \<open>
  What the calibration prints for a valid measurement: the larger of the raw capacitance
  and the current offset of 20 pF.
\<close>

lemma calibrateStrayCapacitance_Some:
  assumes "measureCapacitance x (enter_cap_mode x (calibration_prologue w)) = Some (r, w1)"
    and "valid r"
  shows "\<exists>w'. calibrateStrayCapacitance x w = Some w' \<and>
           log w' = log (leave_cap_mode x w1) @
             [Print ''CAP_CAL:Measured stray capacitance: '',
              PrintFloat (max 20 (raw_capacitance_pf (charge_time_us r))) 1,
              Println '' pF'',
              Print ''CAP_CAL:Update CAP_STRAY_PF to '',
              PrintFloat (max 20 (raw_capacitance_pf (charge_time_us r))) 0,
              Println '' in capacitance.h'']"
proof -
  have "capacitance_pf r + CAP_STRAY_PF = max 20 (raw_capacitance_pf (charge_time_us r))"
    using measureCapacitance_capacitance [OF assms(1)] calculateCapacitance_add_back by simp
  then show ?thesis
    using assms
    by (simp add: calibrateStrayCapacitance_def calibration_prologue_def Let_def
        serial_println_def serial_print_def serial_print_float_def)
qed

lemma quick_world_times:
  "map_option fst (run_cycles bench 5 (enter_cap_mode bench (calibration_prologue quick_world))) =
     Some [10, 10, 10, 10, 10]"
  unfolding five_cycles quick_world_def
  by (simp add: eval_cycle del: run_cycles.simps(2))

lemma quick_world_test_times:
  "map_option fst (run_cycles bench 5 (enter_cap_mode bench quick_world)) =
     Some [10, 10, 10, 10, 10]"
  unfolding five_cycles quick_world_def
  by (simp add: eval_cycle del: run_cycles.simps(2))

subsection \<open>Runs that return\<close>

text \<open>
  If, from every position in the two input sources, a cycle would find an iteration in which
  its loop ends, the five cycles and the test return; this is so when the sense pin stays
  at or above the threshold.
\<close>

lemma cycle_exits_at_cong:
  assumes "clock w = clock w'" and "adc w = adc w'"
    and "micros_calls w = micros_calls w'" and "adc_calls w = adc_calls w'"
  shows "cycle_exits_at w j = cycle_exits_at w' j"
  using assms
  by (simp add: cycle_exits_at_def poll_exits_at_def still_polling_def deadline_def start_time_def)

lemma run_cycles_returns:
  assumes "\<forall>m a. \<exists>j. cycle_exits_at (w\<lparr>micros_calls := m, adc_calls := a\<rparr>) j"
  shows "\<exists>ts w'. run_cycles x n w = Some (ts, w')"
  using assms
proof (induction n arbitrary: w)
  case 0
  show ?case by simp
next
  case (Suc n)
  from Suc.prems obtain j where
    "cycle_exits_at (w\<lparr>micros_calls := micros_calls w, adc_calls := adc_calls w\<rparr>) j"
    by blast
  then have j: "cycle_exits_at w j" by simp
  let ?w1 = "delay 10 (snd (cycle_outcome x w j))"
  have m: "measureChargeTime x w = Some (cycle_outcome x w j)"
    using j by (rule measureChargeTime_exits)
  have "\<forall>m a. \<exists>j. cycle_exits_at (?w1\<lparr>micros_calls := m, adc_calls := a\<rparr>) j"
  proof (intro allI)
    fix m a
    from Suc.prems obtain k where "cycle_exits_at (w\<lparr>micros_calls := m, adc_calls := a\<rparr>) k"
      by blast
    moreover have "cycle_exits_at (?w1\<lparr>micros_calls := m, adc_calls := a\<rparr>) k =
        cycle_exits_at (w\<lparr>micros_calls := m, adc_calls := a\<rparr>) k"
      by (rule cycle_exits_at_cong) simp_all
    ultimately show "\<exists>j. cycle_exits_at (?w1\<lparr>micros_calls := m, adc_calls := a\<rparr>) j"
      by blast
  qed
  from Suc.IH [OF this] obtain ts w' where "run_cycles x n ?w1 = Some (ts, w')"
    by blast
  with m show ?case
    by (simp add: case_prod_unfold)
qed

lemma runCapacitanceTest_returns:
  assumes "\<forall>m a. \<exists>j. cycle_exits_at (w\<lparr>micros_calls := m, adc_calls := a\<rparr>) j"
  shows "\<exists>b w'. runCapacitanceTest x w = Some (b, w')"
proof -
  have "\<forall>m a. \<exists>j. cycle_exits_at (enter_cap_mode x w\<lparr>micros_calls := m, adc_calls := a\<rparr>) j"
  proof (intro allI)
    fix m a
    from assms obtain k where "cycle_exits_at (w\<lparr>micros_calls := m, adc_calls := a\<rparr>) k"
      by blast
    moreover have "cycle_exits_at (enter_cap_mode x w\<lparr>micros_calls := m, adc_calls := a\<rparr>) k =
        cycle_exits_at (w\<lparr>micros_calls := m, adc_calls := a\<rparr>) k"
      by (rule cycle_exits_at_cong) simp_all
    ultimately show "\<exists>j. cycle_exits_at (enter_cap_mode x w\<lparr>micros_calls := m, adc_calls := a\<rparr>) j"
      by blast
  qed
  from run_cycles_returns [OF this, of x 5] obtain ts w1 where
    "run_cycles x 5 (enter_cap_mode x w) = Some (ts, w1)"
    by blast
  then have "measureCapacitance x (enter_cap_mode x w) = Some (averaged_result ts, w1)"
    by (simp add: measureCapacitance_run_cycles)
  from runCapacitanceTest_Some [OF this] show ?thesis
    by blast
qed

lemma runCapacitanceTest_returns_when_charged:
  assumes "\<forall>n. CAP_ADC_THRESHOLD \<le> adc w n"
  shows "\<exists>b w'. runCapacitanceTest x w = Some (b, w')"
proof (rule runCapacitanceTest_returns, intro allI)
  fix m a
  have "cycle_exits_at (w\<lparr>micros_calls := m, adc_calls := a\<rparr>) 0"
    using assms by (simp add: cycle_exits_at_def poll_exits_at_def still_polling_def)
  then show "\<exists>j. cycle_exits_at (w\<lparr>micros_calls := m, adc_calls := a\<rparr>) j" ..
qed

lemma runCapacitanceTest_dark:
  "map_option fst (runCapacitanceTest bench dark_world) = Some False"
proof -
  obtain w1 where h: "run_cycles bench 5 (enter_cap_mode bench dark_world) =
      Some ([0, 0, 0, 0, 0], w1)"
    using map_option_fst_Some [OF dark_world_times] by blast
  have "averaged_result [0, 0, 0, 0, 0] =
      \<lparr>valid = False, capacitance_pf = 0, charge_time_us = 0, num_samples = 0\<rparr>"
    by (simp add: averaged_result_def valid_times_def)
  then have "measureCapacitance bench (enter_cap_mode bench dark_world) =
      Some (\<lparr>valid = False, capacitance_pf = 0, charge_time_us = 0, num_samples = 0\<rparr>, w1)"
    using h by (simp add: measureCapacitance_run_cycles)
  from runCapacitanceTest_Some [OF this] show ?thesis
    by auto
qed

section \<open>The claims\<close>

subsection \<open>C1\<close>

text \<open>
  C1 (amended). For every charge time \<open>t > 0\<close> the result is
  \<open>max 0 (t / 1e6 / (2200000 * 0.693) * 1e12 - 20)\<close>; for \<open>t = 0\<close> the function
  returns the ordinary number 0, not an invalid value.
\<close>

theorem calculateCapacitance_formula:
  "(t \<noteq> 0 \<longrightarrow>
      calculateCapacitance t =
        max 0 (real (unat t) / 1000000 / (2200000 * (693 / 1000)) * 1000000000000 - 20)) \<and>
   (t = 0 \<longrightarrow> calculateCapacitance t = 0)"
  by (simp add: calculateCapacitance_raw raw_capacitance_pf_def)

theorem calculateCapacitance_formula_witness:
  "(3000 :: u32) \<noteq> 0 \<and>
   calculateCapacitance 3000 =
     max 0 (real (unat (3000 :: u32)) / 1000000 / (2200000 * (693 / 1000)) * 1000000000000 - 20) \<and>
   calculateCapacitance 3000 = 4949180 / 2541 \<and>
   calculateCapacitance 0 = 0"
  using calculateCapacitance_formula [of 3000] calculateCapacitance_formula [of 0]
  by simp

text \<open>
  C1 as stated fails at \<open>t = 0\<close>: the early return of the source gives 0.
\<close>

theorem calculateCapacitance_zero_not_invalid: "calculateCapacitance 0 = 0"
  by (simp add: calculateCapacitance_def)

subsection \<open>C2\<close>

text \<open>
  C2. \<open>measureCapacitance\<close> runs exactly 5 cycles (\<open>run_cycles x 5\<close>), drops the
  samples whose charge time is 0, averages the remaining charge times (the sum is an
  \<^verbatim>\<open>unsigned long\<close>, the division truncates) and computes the capacitance once, from the
  averaged time; with no valid sample the result has \<open>valid = False\<close>.
\<close>

theorem measureCapacitance_averages:
  assumes "run_cycles x 5 w = Some (ts, w')"
  shows "length ts = 5 \<and>
         measureCapacitance x w = Some (averaged_result ts, w') \<and>
         valid (averaged_result ts) = (\<exists>t\<in>set ts. t \<noteq> 0) \<and>
         (valid (averaged_result ts) \<longrightarrow>
            valid_times ts = filter (\<lambda>t. t \<noteq> 0) ts \<and>
            num_samples (averaged_result ts) = int (length (valid_times ts)) \<and>
            charge_time_us (averaged_result ts) =
              sum_list (valid_times ts) div of_nat (length (valid_times ts)) \<and>
            unat (charge_time_us (averaged_result ts)) =
              (sum_list (map unat (valid_times ts)) mod 2 ^ 32) div length (valid_times ts) \<and>
            capacitance_pf (averaged_result ts) =
              calculateCapacitance (charge_time_us (averaged_result ts)))"
proof (intro conjI impI)
  show len: "length ts = 5"
    using assms by (rule run_cycles_length)
  show "measureCapacitance x w = Some (averaged_result ts, w')"
    using assms by (simp add: measureCapacitance_run_cycles)
  show "valid (averaged_result ts) = (\<exists>t\<in>set ts. t \<noteq> 0)"
    by (simp add: valid_averaged_result valid_times_empty)
  show "valid_times ts = filter (\<lambda>t. t \<noteq> 0) ts"
    by (simp add: valid_times_def)
next
  assume v: "valid (averaged_result ts)"
  then have ne: "valid_times ts \<noteq> []"
    by (simp add: valid_averaged_result)
  then show "num_samples (averaged_result ts) = int (length (valid_times ts))"
    and avg: "charge_time_us (averaged_result ts) =
              sum_list (valid_times ts) div of_nat (length (valid_times ts))"
    and "capacitance_pf (averaged_result ts) =
              calculateCapacitance (charge_time_us (averaged_result ts))"
    by (simp_all add: averaged_result_def)
  have "length (valid_times ts) \<le> 5"
    using run_cycles_length [OF assms] length_filter_le [of "\<lambda>t. t \<noteq> 0" ts]
    by (simp add: valid_times_def)
  then have "unat (of_nat (length (valid_times ts)) :: u32) = length (valid_times ts)"
    by (simp add: unat_of_nat)
  moreover have "unat (sum_list vs) = sum_list (map unat vs) mod 2 ^ 32" for vs :: "u32 list"
    by (induction vs) (simp_all add: unat_word_ariths mod_simps)
  ultimately show "unat (charge_time_us (averaged_result ts)) =
      (sum_list (map unat (valid_times ts)) mod 2 ^ 32) div length (valid_times ts)"
    by (simp add: avg unat_div)
qed

theorem measureCapacitance_averages_witness:
  "\<exists>w'. run_cycles bench 5 mixed_world = Some ([10, 0, 100, 0, 0], w') \<and>
         measureCapacitance bench mixed_world =
           Some (\<lparr>valid = True, capacitance_pf = calculateCapacitance 55,
                  charge_time_us = 55, num_samples = 2\<rparr>, w')"
proof -
  obtain w' where h: "run_cycles bench 5 mixed_world = Some ([10, 0, 100, 0, 0], w')"
    using map_option_fst_Some [OF mixed_world_times] by blast
  have "averaged_result [10, 0, 100, 0, 0] =
      \<lparr>valid = True, capacitance_pf = calculateCapacitance 55, charge_time_us = 55, num_samples = 2\<rparr>"
    by (simp add: averaged_result_def valid_times_def)
  with measureCapacitance_averages [OF h] h show ?thesis by simp
qed

subsection \<open>C3\<close>

text \<open>
  C3. Whenever \<open>runCapacitanceTest\<close> returns, whatever the result, its log reads: the
  hardware operations of the measurement (no serial output among them), ending with the
  charge pin written LOW, the discharge pin set to OUTPUT and written LOW, and both
  continuity pins set to OUTPUT and written LOW; then \<open>resetCircuit\<close>; then the serial
  report and nothing else. In the state \<open>w1\<close> in which \<open>resetCircuit\<close> is called the pins
  are idle (\<open>cap_pins_idle\<close>), and the final pin state is the effect of \<open>resetCircuit\<close>
  on it.
\<close>

theorem runCapacitanceTest_restores_idle:
  assumes "runCapacitanceTest x w = Some (b, w')"
  shows "\<exists>w1 pre report.
           cap_pins_idle x w1 \<and>
           log w1 = log w @ pre @
             [DigitalWrite CAP_CHARGE_PIN LOW, PinMode CAP_DISCHARGE_PIN OUTPUT,
              DigitalWrite CAP_DISCHARGE_PIN LOW, Delay 10,
              PinMode (TS_CONT_OUT_SLEEVE_PIN x) OUTPUT, DigitalWrite (TS_CONT_OUT_SLEEVE_PIN x) LOW,
              PinMode (TS_CONT_OUT_TIP_PIN x) OUTPUT, DigitalWrite (TS_CONT_OUT_TIP_PIN x) LOW] \<and>
           (\<forall>e\<in>set pre. \<not> is_serial e) \<and>
           (modes w', levels w') = resetCircuit_body x (modes w1, levels w1) \<and>
           log w' = log w1 @ [ResetCircuit] @ report \<and>
           report \<noteq> [] \<and> (\<forall>e\<in>set report. is_serial e)"
proof -
  from assms obtain r w0 where m: "measureCapacitance x (enter_cap_mode x w) = Some (r, w0)"
    by (cases "measureCapacitance x (enter_cap_mode x w)") (auto simp: runCapacitanceTest_None)
  from runCapacitanceTest_Some [OF m] assms
  have out: "log w' = log (leave_cap_mode x w0) @ report_events r"
    "modes w' = modes (leave_cap_mode x w0)" "levels w' = levels (leave_cap_mode x w0)"
    by auto
  obtain ts where "run_cycles x (Suc 4) (enter_cap_mode x w) = Some (ts, w0)"
    using measureCapacitance_Some [OF m] by auto
  from run_cycles_ends [OF this] obtain pre0 where pre0:
    "log w0 = log (enter_cap_mode x w) @ pre0 @
       [DigitalWrite CAP_CHARGE_PIN LOW, PinMode CAP_DISCHARGE_PIN OUTPUT,
        DigitalWrite CAP_DISCHARGE_PIN LOW, Delay 10]"
    "\<forall>e\<in>set pre0. \<not> is_serial e"
    and pins: "levels w0 CAP_CHARGE_PIN = LOW" "modes w0 CAP_DISCHARGE_PIN = OUTPUT"
      "levels w0 CAP_DISCHARGE_PIN = LOW"
    by blast
  let ?w1 = "restore_cont_pins x w0"
  let ?pre = "[DigitalWrite (K1_K2_RELAY_PIN x) HIGH, DigitalWrite (K4_RELAY_PIN x) LOW,
               PinMode (TS_CONT_OUT_SLEEVE_PIN x) INPUT, PinMode (TS_CONT_OUT_TIP_PIN x) INPUT,
               Delay 20] @ pre0"
  have "cap_pins_idle x ?w1"
    using pins by (rule restore_cont_pins_idle)
  moreover have "log ?w1 = log w @ ?pre @
             [DigitalWrite CAP_CHARGE_PIN LOW, PinMode CAP_DISCHARGE_PIN OUTPUT,
              DigitalWrite CAP_DISCHARGE_PIN LOW, Delay 10,
              PinMode (TS_CONT_OUT_SLEEVE_PIN x) OUTPUT, DigitalWrite (TS_CONT_OUT_SLEEVE_PIN x) LOW,
              PinMode (TS_CONT_OUT_TIP_PIN x) OUTPUT, DigitalWrite (TS_CONT_OUT_TIP_PIN x) LOW]"
    by (simp add: restore_cont_pins_log pre0(1) enter_cap_mode_log)
  moreover have "\<forall>e\<in>set ?pre. \<not> is_serial e"
    using pre0(2) by auto
  moreover have "(modes w', levels w') = resetCircuit_body x (modes ?w1, levels ?w1)"
    using out(2,3) leave_cap_mode_fields(2) [of x w0] by simp
  moreover have "log w' = log ?w1 @ [ResetCircuit] @ report_events r"
    using out(1) by (simp add: leave_cap_mode_fields(1))
  ultimately show ?thesis
    using report_events_serial [of r] by blast
qed

theorem runCapacitanceTest_restores_idle_witness:
  "(\<exists>w'. runCapacitanceTest bench steady_world = Some (True, w') \<and>
     (\<exists>w1 pre report.
           cap_pins_idle bench w1 \<and>
           log w1 = log steady_world @ pre @
             [DigitalWrite CAP_CHARGE_PIN LOW, PinMode CAP_DISCHARGE_PIN OUTPUT,
              DigitalWrite CAP_DISCHARGE_PIN LOW, Delay 10,
              PinMode 5 OUTPUT, DigitalWrite 5 LOW, PinMode 6 OUTPUT, DigitalWrite 6 LOW] \<and>
           (modes w', levels w') = (modes w1, (levels w1)(2 := LOW, 4 := LOW)) \<and>
           log w' = log w1 @ [ResetCircuit] @ report \<and>
           report \<noteq> [])) \<and>
   (\<exists>w'. runCapacitanceTest bench dark_world = Some (False, w') \<and>
     (\<exists>w1 pre report.
           cap_pins_idle bench w1 \<and>
           log w1 = log dark_world @ pre @
             [DigitalWrite CAP_CHARGE_PIN LOW, PinMode CAP_DISCHARGE_PIN OUTPUT,
              DigitalWrite CAP_DISCHARGE_PIN LOW, Delay 10,
              PinMode 5 OUTPUT, DigitalWrite 5 LOW, PinMode 6 OUTPUT, DigitalWrite 6 LOW] \<and>
           (modes w', levels w') = (modes w1, (levels w1)(2 := LOW, 4 := LOW)) \<and>
           log w' = log w1 @ [ResetCircuit] @ report \<and>
           report \<noteq> []))"
proof -
  obtain w' where h: "runCapacitanceTest bench steady_world = Some (True, w')"
    using map_option_fst_Some [OF runCapacitanceTest_steady] by blast
  obtain v' where k: "runCapacitanceTest bench dark_world = Some (False, v')"
    using map_option_fst_Some [OF runCapacitanceTest_dark] by blast
  have a: "\<exists>w'. runCapacitanceTest bench steady_world = Some (True, w') \<and>
     (\<exists>w1 pre report.
           cap_pins_idle bench w1 \<and>
           log w1 = log steady_world @ pre @
             [DigitalWrite CAP_CHARGE_PIN LOW, PinMode CAP_DISCHARGE_PIN OUTPUT,
              DigitalWrite CAP_DISCHARGE_PIN LOW, Delay 10,
              PinMode 5 OUTPUT, DigitalWrite 5 LOW, PinMode 6 OUTPUT, DigitalWrite 6 LOW] \<and>
           (modes w', levels w') = (modes w1, (levels w1)(2 := LOW, 4 := LOW)) \<and>
           log w' = log w1 @ [ResetCircuit] @ report \<and>
           report \<noteq> [])"
    using runCapacitanceTest_restores_idle [OF h] h by (simp add: bench_def) blast
  have b: "\<exists>w'. runCapacitanceTest bench dark_world = Some (False, w') \<and>
     (\<exists>w1 pre report.
           cap_pins_idle bench w1 \<and>
           log w1 = log dark_world @ pre @
             [DigitalWrite CAP_CHARGE_PIN LOW, PinMode CAP_DISCHARGE_PIN OUTPUT,
              DigitalWrite CAP_DISCHARGE_PIN LOW, Delay 10,
              PinMode 5 OUTPUT, DigitalWrite 5 LOW, PinMode 6 OUTPUT, DigitalWrite 6 LOW] \<and>
           (modes w', levels w') = (modes w1, (levels w1)(2 := LOW, 4 := LOW)) \<and>
           log w' = log w1 @ [ResetCircuit] @ report \<and>
           report \<noteq> [])"
    using runCapacitanceTest_restores_idle [OF k] k by (simp add: bench_def) blast
  from a b show ?thesis ..
qed

subsection \<open>C4\<close>

text \<open>
  C4 at a start timestamp 50000 microseconds before the wraparound: 8 microseconds after
  the start, with the sense pin at ADC code 1023, \<open>measureChargeTime\<close> returns 0 (the
  timeout value) and has not sampled the ADC at all.
\<close>

theorem spurious_timeout_near_wraparound:
  "start_time wrap_world = 4294917296 \<and>
   adc wrap_world 0 = 1023 \<and>
   clock wrap_world 1 - start_time wrap_world = 8 \<and>
   map_option fst (measureChargeTime bench wrap_world) = Some 0 \<and>
   map_option (adc_calls \<circ> snd) (measureChargeTime bench wrap_world) = Some 0"
  by (simp add: wrap_world_def measureChargeTime_exit0 crossed_at_def deadline_def start_time_def
      CAP_TIMEOUT_US_def CAP_ADC_THRESHOLD_def cycle_outcome_time)

subsection \<open>C5\<close>

text \<open>
  C5. If all 5 samples come back with charge time 0, \<open>measureCapacitance\<close> returns a result
  with \<open>valid = False\<close>, and \<open>runCapacitanceTest\<close> returns \<open>False\<close>; its log ends with the
  restored continuity pins, \<open>resetCircuit\<close> and then the single line
  \<^verbatim>\<open>CAP:FAIL:TIMEOUT:No charge detected\<close>, and the pins are idle when \<open>resetCircuit\<close> is called.
\<close>

theorem all_samples_time_out:
  assumes "run_cycles x 5 (enter_cap_mode x w) = Some (ts, w1)" and "\<forall>t\<in>set ts. t = 0"
  shows "measureCapacitance x (enter_cap_mode x w) =
           Some (\<lparr>valid = False, capacitance_pf = 0, charge_time_us = 0, num_samples = 0\<rparr>, w1) \<and>
         cap_pins_idle x (restore_cont_pins x w1) \<and>
         (\<exists>w'. runCapacitanceTest x w = Some (False, w') \<and>
               log w' = log (restore_cont_pins x w1) @
                 [ResetCircuit, Println ''CAP:FAIL:TIMEOUT:No charge detected''] \<and>
               (modes w', levels w') =
                 resetCircuit_body x (modes (restore_cont_pins x w1), levels (restore_cont_pins x w1)))"
proof -
  let ?r = "\<lparr>valid = False, capacitance_pf = 0, charge_time_us = 0, num_samples = 0\<rparr>"
  have "valid_times ts = []"
    using assms(2) by (simp add: valid_times_empty)
  then have r: "averaged_result ts = ?r"
    by (simp add: averaged_result_def)
  then have m: "measureCapacitance x (enter_cap_mode x w) = Some (?r, w1)"
    using assms(1) by (simp add: measureCapacitance_run_cycles)
  from assms(1) have "run_cycles x (Suc 4) (enter_cap_mode x w) = Some (ts, w1)" by simp
  from run_cycles_ends [OF this] have idle: "cap_pins_idle x (restore_cont_pins x w1)"
    by (intro restore_cont_pins_idle) auto
  from runCapacitanceTest_Some [OF m] obtain w' where w':
    "runCapacitanceTest x w = Some (False, w')"
    "log w' = log (leave_cap_mode x w1) @ report_events ?r"
    "modes w' = modes (leave_cap_mode x w1)" "levels w' = levels (leave_cap_mode x w1)"
    by auto
  have "log w' = log (restore_cont_pins x w1) @
      [ResetCircuit, Println ''CAP:FAIL:TIMEOUT:No charge detected'']"
    using w'(2) by (simp add: leave_cap_mode_fields(1) report_events_def)
  moreover have "(modes w', levels w') =
      resetCircuit_body x (modes (restore_cont_pins x w1), levels (restore_cont_pins x w1))"
    using w'(3,4) leave_cap_mode_fields(2) [of x w1] by simp
  ultimately show ?thesis
    using m idle w'(1) by blast
qed

theorem all_samples_time_out_witness:
  "\<exists>w1 w'. run_cycles bench 5 (enter_cap_mode bench dark_world) = Some ([0, 0, 0, 0, 0], w1) \<and>
     runCapacitanceTest bench dark_world = Some (False, w') \<and>
     log w' = log (restore_cont_pins bench w1) @
       [ResetCircuit, Println ''CAP:FAIL:TIMEOUT:No charge detected'']"
proof -
  obtain w1 where h: "run_cycles bench 5 (enter_cap_mode bench dark_world) = Some ([0, 0, 0, 0, 0], w1)"
    using map_option_fst_Some [OF dark_world_times] by blast
  have z: "\<forall>t\<in>set [0, 0, 0, 0, 0 :: u32]. t = 0" by simp
  from all_samples_time_out [OF h z] h show ?thesis by blast
qed

subsection \<open>C6\<close>

text \<open>
  C6. For a valid measurement with corrected capacitance \<open>C\<close>, \<open>runCapacitanceTest\<close> returns
  the truth value of \<open>50 \<le> C \<and> C \<le> 2000\<close> (both bounds included) and prints PASS exactly
  when it is true, WARN otherwise;
  an averaged charge time of 3000 microseconds gives \<open>C = 4949180 / 2541\<close>, within one half
  of 1948 pF, and the test returns \<open>True\<close>.
\<close>

theorem runCapacitanceTest_range:
  assumes "measureCapacitance x (enter_cap_mode x w) = Some (r, w1)" and "valid r"
  shows "(\<exists>w'. runCapacitanceTest x w =
                 Some (50 \<le> capacitance_pf r \<and> capacitance_pf r \<le> 2000, w') \<and>
               log w' = log (leave_cap_mode x w1) @
                 [Print ''CAP:'',
                  Print (if 50 \<le> capacitance_pf r \<and> capacitance_pf r \<le> 2000
                         then ''PASS'' else ''WARN''),
                  Print '':PF:'', PrintFloat (capacitance_pf r) 1,
                  Print '':TIME_US:'', PrintULong (charge_time_us r),
                  Print '':SAMPLES:'', PrintlnInt (num_samples r)]) \<and>
         (charge_time_us r = 3000 \<longrightarrow>
            capacitance_pf r = 4949180 / 2541 \<and> \<bar>capacitance_pf r - 1948\<bar> < 1 / 2 \<and>
            map_option fst (runCapacitanceTest x w) = Some True)"
proof -
  from runCapacitanceTest_Some [OF assms(1)] assms(2) obtain w' where w':
    "runCapacitanceTest x w = Some (50 \<le> capacitance_pf r \<and> capacitance_pf r \<le> 2000, w')"
    "log w' = log (leave_cap_mode x w1) @ report_events r"
    by auto
  have c: "capacitance_pf r = calculateCapacitance (charge_time_us r)"
    using assms(1) by (rule measureCapacitance_capacitance)
  have "capacitance_pf r = 4949180 / 2541" if "charge_time_us r = 3000"
    using that c by (simp add: calculateCapacitance_raw raw_capacitance_pf_def)
  then show ?thesis
    using w' assms(2) by (auto simp: report_events_def)
qed

theorem runCapacitanceTest_range_witness:
  "(\<exists>r w1. measureCapacitance bench (enter_cap_mode bench steady_world) = Some (r, w1) \<and>
     valid r \<and> charge_time_us r = 3000 \<and> capacitance_pf r = 4949180 / 2541 \<and>
     map_option fst (runCapacitanceTest bench steady_world) = Some True) \<and>
   (\<exists>r w1. measureCapacitance bench (enter_cap_mode bench quick_world) = Some (r, w1) \<and>
     valid r \<and> charge_time_us r = 10 \<and> capacitance_pf r = 0 \<and>
     map_option fst (runCapacitanceTest bench quick_world) = Some False)"
proof -
  obtain w1 where h: "run_cycles bench 5 (enter_cap_mode bench steady_world) =
      Some ([3000, 3000, 3000, 3000, 3000], w1)"
    using map_option_fst_Some [OF steady_world_times] by blast
  let ?r = "\<lparr>valid = True, capacitance_pf = calculateCapacitance 3000, charge_time_us = 3000,
       num_samples = 5\<rparr>"
  have "averaged_result [3000, 3000, 3000, 3000, 3000] = ?r"
    by (simp add: averaged_result_def valid_times_def)
  then have m: "measureCapacitance bench (enter_cap_mode bench steady_world) = Some (?r, w1)"
    using h by (simp add: measureCapacitance_run_cycles)
  have v: "valid ?r" by simp
  have a: "\<exists>r w1. measureCapacitance bench (enter_cap_mode bench steady_world) = Some (r, w1) \<and>
     valid r \<and> charge_time_us r = 3000 \<and> capacitance_pf r = 4949180 / 2541 \<and>
     map_option fst (runCapacitanceTest bench steady_world) = Some True"
    using runCapacitanceTest_range [OF m v] m
    by (intro exI [of _ ?r] exI [of _ w1]) simp
  obtain v1 where k: "run_cycles bench 5 (enter_cap_mode bench quick_world) =
      Some ([10, 10, 10, 10, 10], v1)"
    using map_option_fst_Some [OF quick_world_test_times] by blast
  let ?q = "\<lparr>valid = True, capacitance_pf = calculateCapacitance 10, charge_time_us = 10,
       num_samples = 5\<rparr>"
  have "averaged_result [10, 10, 10, 10, 10] = ?q"
    by (simp add: averaged_result_def valid_times_def)
  then have n: "measureCapacitance bench (enter_cap_mode bench quick_world) = Some (?q, v1)"
    using k by (simp add: measureCapacitance_run_cycles)
  have u: "valid ?q" by simp
  have z: "calculateCapacitance 10 = 0"
    by (simp add: calculateCapacitance_clamped)
  have b: "\<exists>r w1. measureCapacitance bench (enter_cap_mode bench quick_world) = Some (r, w1) \<and>
     valid r \<and> charge_time_us r = 10 \<and> capacitance_pf r = 0 \<and>
     map_option fst (runCapacitanceTest bench quick_world) = Some False"
    using runCapacitanceTest_range [OF n u] n z
    by (intro exI [of _ ?q] exI [of _ v1]) auto
  from a b show ?thesis ..
qed

subsection \<open>C7\<close>

text \<open>
  C7 on an open fixture whose five samples all take 10 microseconds: the raw stray
  capacitance is \<open>50000 / 7623\<close> pF (about 6.6), the corrected value is clamped to 0, and
  the calibration prints 20, the offset it already had, not the raw measurement.
\<close>

theorem calibration_reports_offset_not_raw:
  "\<exists>w1 w'.
     run_cycles bench 5 (enter_cap_mode bench (calibration_prologue quick_world)) =
       Some ([10, 10, 10, 10, 10], w1) \<and>
     raw_capacitance_pf 10 = 50000 / 7623 \<and>
     calibrateStrayCapacitance bench quick_world = Some w' \<and>
     log w' = log (leave_cap_mode bench w1) @
       [Print ''CAP_CAL:Measured stray capacitance: '', PrintFloat 20 1, Println '' pF'',
        Print ''CAP_CAL:Update CAP_STRAY_PF to '', PrintFloat 20 0, Println '' in capacitance.h'']"
proof -
  obtain w1 where h:
    "run_cycles bench 5 (enter_cap_mode bench (calibration_prologue quick_world)) =
       Some ([10, 10, 10, 10, 10], w1)"
    using map_option_fst_Some [OF quick_world_times] by blast
  let ?r = "\<lparr>valid = True, capacitance_pf = calculateCapacitance 10, charge_time_us = 10,
       num_samples = 5\<rparr>"
  have "averaged_result [10, 10, 10, 10, 10] = ?r"
    by (simp add: averaged_result_def valid_times_def)
  then have m: "measureCapacitance bench (enter_cap_mode bench (calibration_prologue quick_world)) =
      Some (?r, w1)"
    using h by (simp add: measureCapacitance_run_cycles)
  have raw: "raw_capacitance_pf 10 = 50000 / 7623"
    by (simp add: raw_capacitance_pf_def)
  from calibrateStrayCapacitance_Some [OF m] h raw show ?thesis
    by auto
qed

subsection \<open>C8\<close>




subsection \<open>C9\<close>

text \<open>
  C9 (amended). When the start timestamp is within 100000 microseconds of the 32-bit
  wraparound, the deadline \<open>startTime + 100000\<close> wraps below \<open>startTime\<close>. If the clock
  reading of the first loop test is not below the wrapped deadline (in particular if it
  is not below \<open>startTime\<close>, the clock not having wrapped yet), the loop body never runs
  and \<open>measureChargeTime\<close> returns 0 without a single ADC sample.
\<close>

theorem deadline_wraps_below_start:
  assumes "2 ^ 32 \<le> unat (start_time w) + 100000"
  shows "deadline w < start_time w \<and>
         (start_time w \<le> clock w (Suc (micros_calls w)) \<longrightarrow>
            deadline w \<le> clock w (Suc (micros_calls w))) \<and>
         (deadline w \<le> clock w (Suc (micros_calls w)) \<longrightarrow>
            (\<exists>w'. measureChargeTime x w = Some (0, w') \<and> adc_calls w' = adc_calls w \<and>
                  log w' =
                    log w @ [DigitalWrite CAP_CHARGE_PIN LOW, DigitalWrite CAP_DISCHARGE_PIN LOW,
                             Delay CAP_DISCHARGE_TIME_MS, PinMode CAP_DISCHARGE_PIN INPUT,
                             Micros (start_time w), DigitalWrite CAP_CHARGE_PIN HIGH,
                             Micros (clock w (Suc (micros_calls w))),
                             DigitalWrite CAP_CHARGE_PIN LOW, PinMode CAP_DISCHARGE_PIN OUTPUT,
                             DigitalWrite CAP_DISCHARGE_PIN LOW]))"
proof (intro conjI impI)
  have "unat (start_time w) < 2 ^ 32"
    using unsigned_less [of "start_time w"] by simp
  then show below: "deadline w < start_time w"
    using deadline_wrapped [OF assms] assms unfolding word_less_nat_alt by simp
  show "deadline w \<le> clock w (Suc (micros_calls w))"
    if "start_time w \<le> clock w (Suc (micros_calls w))"
    using that below by simp
next
  assume "deadline w \<le> clock w (Suc (micros_calls w))"
  then have no: "\<not> crossed_at w 0"
    by (simp add: crossed_at_def)
  then have "measureChargeTime x w = Some (cycle_outcome x w 0)"
    by (intro measureChargeTime_exit0) simp
  moreover have "fst (cycle_outcome x w 0) = 0"
    using no by (simp add: cycle_outcome_time)
  ultimately have "measureChargeTime x w = Some (0, snd (cycle_outcome x w 0))"
    by (metis prod.collapse)
  moreover have "adc_calls (snd (cycle_outcome x w 0)) = adc_calls w"
    using no by simp
  ultimately show "\<exists>w'. measureChargeTime x w = Some (0, w') \<and> adc_calls w' = adc_calls w \<and>
                  log w' =
                    log w @ [DigitalWrite CAP_CHARGE_PIN LOW, DigitalWrite CAP_DISCHARGE_PIN LOW,
                             Delay CAP_DISCHARGE_TIME_MS, PinMode CAP_DISCHARGE_PIN INPUT,
                             Micros (start_time w), DigitalWrite CAP_CHARGE_PIN HIGH,
                             Micros (clock w (Suc (micros_calls w))),
                             DigitalWrite CAP_CHARGE_PIN LOW, PinMode CAP_DISCHARGE_PIN OUTPUT,
                             DigitalWrite CAP_DISCHARGE_PIN LOW]"
    using cycle_outcome_timeout0_log [OF no] by blast
qed

theorem deadline_wraps_below_start_witness:
  "(2 :: nat) ^ 32 \<le> unat (start_time wrap_world) + 100000 \<and>
   deadline wrap_world = 50000 \<and> start_time wrap_world = 4294917296 \<and>
   deadline wrap_world \<le> clock wrap_world (Suc (micros_calls wrap_world)) \<and>
   (\<exists>w'. measureChargeTime bench wrap_world = Some (0, w') \<and> adc_calls w' = 0)"
proof -
  have a: "(2 :: nat) ^ 32 \<le> unat (start_time wrap_world) + 100000"
    by (simp add: wrap_world_def start_time_def)
  have b: "deadline wrap_world \<le> clock wrap_world (Suc (micros_calls wrap_world))"
    by (simp add: wrap_world_def start_time_def deadline_def CAP_TIMEOUT_US_def)
  have c: "adc_calls wrap_world = 0"
    by (simp add: wrap_world_def)
  from deadline_wraps_below_start [OF a, of bench] a b c show ?thesis
    by (auto simp: wrap_world_def start_time_def deadline_def CAP_TIMEOUT_US_def)
qed

text \<open>
  C9 as stated fails when the clock itself wraps between the start timestamp and the first
  loop test: with start \<open>2^32 - 4\<close> and next reading 4 the loop body runs, the ADC is
  sampled once and the function returns 132.
\<close>

theorem wrapped_clock_reading_enters_loop:
  "(2 :: nat) ^ 32 \<le> unat (start_time edge_world) + 100000 \<and>
   map_option fst (measureChargeTime bench edge_world) = Some 132 \<and>
   map_option (adc_calls \<circ> snd) (measureChargeTime bench edge_world) = Some 1"
  by (simp add: edge_world_def measureChargeTime_exit0 crossed_at_def deadline_def start_time_def
      CAP_TIMEOUT_US_def CAP_ADC_THRESHOLD_def cycle_outcome_time)

subsection \<open>C10\<close>

text \<open>
  C10. A cycle whose polling loop leaves through the threshold test (the ADC value read is
  at least 512) while the clock reading after the crossing equals the start timestamp
  makes \<open>measureChargeTime\<close> return 0. The sampling loop of \<open>measureCapacitance\<close> then
  goes on with \<open>totalTime\<close> and \<open>validSamples\<close> unchanged, as it does for a timed-out
  cycle, which returns the same 0.
\<close>

theorem zero_elapsed_crossing_discarded:
  assumes "cycle_exits_at w j" and "crossed_at w j"
    and "clock w (Suc (Suc (micros_calls w)) + j) = start_time w"
  shows "CAP_ADC_THRESHOLD \<le> adc w (adc_calls w + j) \<and>
         (\<exists>w'. measureChargeTime x w = Some (0, w') \<and>
               adc_calls w' = Suc (adc_calls w + j) \<and>
               (\<forall>i tot n. i < CAP_NUM_SAMPLES \<longrightarrow>
                  sample_loop x i tot n w = sample_loop x (i + 1) tot n (delay 10 w'))) \<and>
         valid_times [0] = [] \<and>
         (\<forall>w2 j2. cycle_exits_at w2 j2 \<and> \<not> crossed_at w2 j2 \<longrightarrow>
            map_option fst (measureChargeTime x w2) = Some 0)"
proof (intro conjI allI impI)
  show "CAP_ADC_THRESHOLD \<le> adc w (adc_calls w + j)"
    using assms(1,2)
    by (simp add: cycle_exits_at_def poll_exits_at_def crossed_at_def)
  have m: "measureChargeTime x w = Some (cycle_outcome x w j)"
    using assms(1) by (rule measureChargeTime_exits)
  have "fst (cycle_outcome x w j) = 0"
    using assms(2,3) by (simp add: cycle_outcome_time)
  with m have m0: "measureChargeTime x w = Some (0, snd (cycle_outcome x w j))"
    by (metis prod.collapse)
  have "sample_loop x i tot n w = sample_loop x (i + 1) tot n (delay 10 (snd (cycle_outcome x w j)))"
    if "i < CAP_NUM_SAMPLES" for i tot n
    using that m0 by (subst sample_loop.simps) simp
  then show "\<exists>w'. measureChargeTime x w = Some (0, w') \<and>
               adc_calls w' = Suc (adc_calls w + j) \<and>
               (\<forall>i tot n. i < CAP_NUM_SAMPLES \<longrightarrow>
                  sample_loop x i tot n w = sample_loop x (i + 1) tot n (delay 10 w'))"
    using m0 assms(2) by (intro exI [of _ "snd (cycle_outcome x w j)"]) simp
  show "valid_times [0] = []"
    by (simp add: valid_times_def)
next
  fix w2 j2
  assume h: "cycle_exits_at w2 j2 \<and> \<not> crossed_at w2 j2"
  then have "measureChargeTime x w2 = Some (cycle_outcome x w2 j2)"
    by (intro measureChargeTime_exits) simp
  then show "map_option fst (measureChargeTime x w2) = Some 0"
    using h by (simp add: cycle_outcome_time)
qed

theorem zero_elapsed_crossing_discarded_witness:
  "cycle_exits_at instant_world 0 \<and> crossed_at instant_world 0 \<and>
   clock instant_world 2 = start_time instant_world \<and>
   adc instant_world 0 = 600 \<and>
   (\<exists>w'. measureChargeTime bench instant_world = Some (0, w') \<and> adc_calls w' = 1) \<and>
   map_option fst (run_cycles bench 5 (enter_cap_mode bench instant_world)) = Some [0, 0, 0, 0, 0] \<and>
   map_option fst (runCapacitanceTest bench instant_world) = Some False"
proof -
  have a: "cycle_exits_at instant_world 0"
    by (simp add: instant_world_def cycle_exits_at_def poll_exits_at_def still_polling_def
        CAP_ADC_THRESHOLD_def)
  have b: "crossed_at instant_world 0"
    by (simp add: instant_world_def crossed_at_def deadline_def start_time_def CAP_TIMEOUT_US_def)
  have c: "clock instant_world (Suc (Suc (micros_calls instant_world)) + 0) = start_time instant_world"
    by (simp add: instant_world_def start_time_def)
  obtain w1 where h: "run_cycles bench 5 (enter_cap_mode bench instant_world) =
      Some ([0, 0, 0, 0, 0], w1)"
    using map_option_fst_Some [OF instant_world_times] by blast
  have z: "\<forall>t\<in>set [0, 0, 0, 0, 0 :: u32]. t = 0" by simp
  have "averaged_result [0, 0, 0, 0, 0] =
      \<lparr>valid = False, capacitance_pf = 0, charge_time_us = 0, num_samples = 0\<rparr>"
    by (simp add: averaged_result_def valid_times_def)
  then have "measureCapacitance bench (enter_cap_mode bench instant_world) =
      Some (\<lparr>valid = False, capacitance_pf = 0, charge_time_us = 0, num_samples = 0\<rparr>, w1)"
    using h by (simp add: measureCapacitance_run_cycles)
  from runCapacitanceTest_Some [OF this]
  have d: "map_option fst (runCapacitanceTest bench instant_world) = Some False"
    by auto
  have e: "adc instant_world 0 = 600" "adc_calls instant_world = 0"
    "clock instant_world 2 = start_time instant_world"
    by (simp_all add: instant_world_def start_time_def)
  from zero_elapsed_crossing_discarded [OF a b c, of bench] a b d e instant_world_times
  show ?thesis by auto
qed

end
